theory Spec2Isabelle
  imports Complex_Main "HOL-Library.Multiset" "HOL-Library.Log_Nat"
begin

section \<open>Numbers and strings of the host language\<close>

text \<open>
  A TypeScript \<open>number\<close> is modelled as either \<open>NaN\<close> or a rational. \<open>NaN\<close> is kept,
  because \<open>parseInt\<close> produces it and no branch of the source removes it. The integers
  read from attributes are taken as they are written (a double holds them exactly below
  \<open>2^53\<close>); the infinities and the sign of zero are outside the model. In the unit
  conversion the quotient and the product are rounded to doubles, since that rounding
  decides the pixel where the exact product is near a half; in the font size and in the
  export placement, where the operands are such integers and the constants 100, 960,
  540, 10 and 5.625, the exact quotient and product are used.
\<close>

datatype jsnum = NaN | Fin rat

fun Math_round :: "jsnum \<Rightarrow> jsnum" where
  "Math_round NaN = NaN"
| "Math_round (Fin q) = Fin (of_int \<lfloor>q + 1 / 2\<rfloor>)"

fun Math_max :: "jsnum \<Rightarrow> jsnum \<Rightarrow> jsnum" where
  "Math_max (Fin a) (Fin b) = Fin (max a b)"
| "Math_max _ _ = NaN"

text \<open>
  The comparison \<open><\<close> of the source, and \<open>\<le>\<close> for the statements: false as soon as one
  side is \<open>NaN\<close>.
\<close>

fun js_lt :: "jsnum \<Rightarrow> jsnum \<Rightarrow> bool" where
  "js_lt (Fin a) (Fin b) = (a < b)"
| "js_lt _ _ = False"

fun js_le :: "jsnum \<Rightarrow> jsnum \<Rightarrow> bool" where
  "js_le (Fin a) (Fin b) = (a \<le> b)"
| "js_le _ _ = False"


fun js_over :: "jsnum \<Rightarrow> rat \<Rightarrow> jsnum" where
  "js_over NaN c = NaN"
| "js_over (Fin a) c = Fin (a / c)"

text \<open>
  Rounding to a double: 53 significant bits, to the nearest, a tie going to the even
  significand. \<open>binade x\<close> is the exponent \<open>e\<close> with \<open>2^e \<le> x < 2^(e+1)\<close>, found from the
  bit lengths of numerator and denominator. The exponent range is not bounded: overflow
  and underflow are outside the model.
\<close>

definition round_even :: "rat \<Rightarrow> int" where
  "round_even q =
     (let f = \<lfloor>q\<rfloor>; r = q - of_int f
      in if r < 1 / 2 then f else if 1 / 2 < r then f + 1 else if even f then f else f + 1)"

definition binade :: "rat \<Rightarrow> int" where
  "binade x =
     (let d = bitlen (fst (quotient_of x)) - bitlen (snd (quotient_of x))
      in if 2 powi d \<le> x then d else d - 1)"

definition fl_pos :: "rat \<Rightarrow> rat" where
  "fl_pos x = (let u = 2 powi (binade x - 52) in of_int (round_even (x / u)) * u)"

definition fl :: "rat \<Rightarrow> rat" where
  "fl x = (if x = 0 then 0 else if 0 < x then fl_pos x else - fl_pos (- x))"

text \<open>The product \<open>emu * scaleFactor\<close> of two doubles, as \<open>*\<close> computes it.\<close>

fun fl_times :: "jsnum \<Rightarrow> rat \<Rightarrow> jsnum" where
  "fl_times NaN c = NaN"
| "fl_times (Fin a) c = Fin (fl (a * c))"

text \<open>
  Strings are lists of code units below 256. White space is what \<open>trim\<close> and \<open>parseInt\<close>
  strip: TAB, LF, VT, FF, CR, SP and NBSP.
\<close>

definition is_ws :: "char \<Rightarrow> bool" where
  "is_ws c \<longleftrightarrow> (of_char c :: nat) \<in> {9, 10, 11, 12, 13, 32, 160}"

definition is_digit :: "char \<Rightarrow> bool" where
  "is_digit c \<longleftrightarrow> 48 \<le> (of_char c :: nat) \<and> (of_char c :: nat) \<le> 57"

definition trim :: "string \<Rightarrow> string" where
  "trim s = rev (dropWhile is_ws (rev (dropWhile is_ws s)))"

definition startsWith :: "string \<Rightarrow> string \<Rightarrow> bool" where
  "startsWith s p \<longleftrightarrow> take (length p) s = p"

text \<open>
  \<open>s.replace(pat, rep)\<close> with a string pattern: only the leftmost occurrence is replaced.
  (The replacement strings used in the source contain no \<open>$\<close>.)
\<close>

fun replace_str :: "string \<Rightarrow> string \<Rightarrow> string \<Rightarrow> string" where
  "replace_str pat rep [] = (if pat = [] then rep else [])"
| "replace_str pat rep (c # cs) =
     (if startsWith (c # cs) pat then rep @ drop (length pat) (c # cs)
      else c # replace_str pat rep cs)"

text \<open>Digit values in radix 10 and 16, as \<open>parseInt\<close> reads them.\<close>

definition digit_val :: "nat \<Rightarrow> char \<Rightarrow> nat option" where
  "digit_val radix c =
     (let n = (of_char c :: nat);
          v = (if 48 \<le> n \<and> n \<le> 57 then Some (n - 48)
               else if 97 \<le> n \<and> n \<le> 122 then Some (n - 87)
               else if 65 \<le> n \<and> n \<le> 90 then Some (n - 55)
               else None)
      in case v of None \<Rightarrow> None | Some d \<Rightarrow> if d < radix then Some d else None)"

fun read_digits :: "nat \<Rightarrow> string \<Rightarrow> nat \<Rightarrow> nat \<Rightarrow> nat \<times> nat" where
  "read_digits radix [] acc cnt = (acc, cnt)"
| "read_digits radix (c # cs) acc cnt =
     (case digit_val radix c of
        None \<Rightarrow> (acc, cnt)
      | Some d \<Rightarrow> read_digits radix cs (acc * radix + d) (Suc cnt))"

text \<open>
  \<open>parseInt(s)\<close> without a radix: leading white space is skipped, one sign is read, a
  \<open>0x\<close>/\<open>0X\<close> prefix selects radix 16, the longest prefix of digits is read and the rest is
  ignored; no digit at all gives \<open>NaN\<close>.
\<close>

definition parseInt :: "string \<Rightarrow> jsnum" where
  "parseInt s =
     (let s1 = dropWhile is_ws s;
          neg = startsWith s1 ''-'';
          s2 = (if startsWith s1 ''-'' \<or> startsWith s1 ''+'' then drop 1 s1 else s1);
          hex = (startsWith s2 ''0x'' \<or> startsWith s2 ''0X'');
          radix = (if hex then 16 else 10);
          s3 = (if hex then drop 2 s2 else s2);
          r = read_digits radix s3 0 0
      in if snd r = 0 then NaN
         else Fin (if neg then - of_nat (fst r) else of_nat (fst r)))"

text \<open>Decimal rendering of an integer, as a template literal prints it.\<close>

fun show_nat :: "nat \<Rightarrow> string" where
  "show_nat n =
     (if n < 10 then [char_of (48 + n)]
      else show_nat (n div 10) @ [char_of (48 + n mod 10)])"

declare show_nat.simps [simp del]

definition show_int :: "int \<Rightarrow> string" where
  "show_int i = (if i < 0 then ''-'' @ show_nat (nat (- i)) else show_nat (nat i))"

text \<open>Number to string, for the integral values \<open>Math.round\<close> returns, and \<open>NaN\<close>.\<close>

fun toString :: "jsnum \<Rightarrow> string" where
  "toString NaN = ''NaN''"
| "toString (Fin q) = show_int \<lfloor>q\<rfloor>"

section \<open>The document tree and its namespace-agnostic navigation\<close>

datatype xml =
    Element (prefix: string) (localName: string) (attributes: "(string \<times> string) list")
      (childNodes: "xml list")
  | TextNode string

text \<open>All elements of a subtree, the root included, in document order.\<close>

fun subtree_elements :: "xml \<Rightarrow> xml list"
  and forest_elements :: "xml list \<Rightarrow> xml list" where
  "subtree_elements (TextNode s) = []"
| "subtree_elements (Element p n as cs) = Element p n as cs # forest_elements cs"
| "forest_elements [] = []"
| "forest_elements (c # cs) = subtree_elements c @ forest_elements cs"

fun descendants :: "xml \<Rightarrow> xml list" where
  "descendants (TextNode s) = []"
| "descendants (Element p n as cs) = forest_elements cs"

fun textContent :: "xml \<Rightarrow> string"
  and textContent_list :: "xml list \<Rightarrow> string" where
  "textContent (TextNode s) = s"
| "textContent (Element p n as cs) = textContent_list cs"
| "textContent_list [] = []"
| "textContent_list (c # cs) = textContent c @ textContent_list cs"

fun is_local :: "string \<Rightarrow> xml \<Rightarrow> bool" where
  "is_local name (Element p n as cs) = (n = name)"
| "is_local name (TextNode s) = False"

fun tagName :: "xml \<Rightarrow> string" where
  "tagName (Element p n as cs) = (if p = [] then n else p @ '':'' @ n)"
| "tagName (TextNode s) = []"

fun getAttribute :: "xml \<Rightarrow> string \<Rightarrow> string option" where
  "getAttribute (Element p n as cs) a = map_of as a"
| "getAttribute (TextNode s) a = None"

text \<open>\<open>el.getElementsByTagNameNS("*", localName)\<close>: the descendants with that local name.\<close>

definition getElementsByTagNameNS :: "xml \<Rightarrow> string \<Rightarrow> xml list" where
  "getElementsByTagNameNS el name = filter (is_local name) (descendants el)"

definition getChild :: "xml option \<Rightarrow> string \<Rightarrow> xml option" where
  "getChild el name =
     (case el of
        None \<Rightarrow> None
      | Some e \<Rightarrow> (case getElementsByTagNameNS e name of [] \<Rightarrow> None | c # _ \<Rightarrow> Some c))"

definition getChildren :: "xml option \<Rightarrow> string \<Rightarrow> xml list" where
  "getChildren el name =
     (case el of None \<Rightarrow> [] | Some e \<Rightarrow> getElementsByTagNameNS e name)"

text \<open>\<open>el.getAttribute(a) || "0"\<close>: an absent or empty attribute reads as \<open>"0"\<close>.\<close>

definition attr_or_zero :: "xml \<Rightarrow> string \<Rightarrow> string" where
  "attr_or_zero el a =
     (case getAttribute el a of None \<Rightarrow> ''0'' | Some v \<Rightarrow> if v = [] then ''0'' else v)"

section \<open>The archive and the slide size\<close>

text \<open>
  The opened archive: its entry names in the order \<open>Object.keys(content.files)\<close> lists
  them, each with the text \<open>async("string")\<close> yields. The browser's \<open>DOMParser\<close> is a
  parameter \<open>parse\<close> giving the document element of a text.
\<close>

type_synonym archive = "(string \<times> string) list"

definition file_string :: "archive \<Rightarrow> string \<Rightarrow> string option" where
  "file_string content name = map_of content name"

definition CANVAS_WIDTH :: rat where "CANVAS_WIDTH = 960"
definition DEFAULT_PPT_WIDTH_EMU :: rat where "DEFAULT_PPT_WIDTH_EMU = 9144000"

text \<open>
  Step 0 of \<open>handlePptxUpload\<close>: the page width is the \<open>cx\<close> attribute of the first
  \<open>sldSz\<close> element of \<open>ppt/presentation.xml\<close> when it parses to a number above 0, and the
  default otherwise. \<open>cx > 0\<close> is false for \<open>NaN\<close>.
\<close>

definition pptWidthEmu :: "(string \<Rightarrow> xml) \<Rightarrow> archive \<Rightarrow> rat" where
  "pptWidthEmu parse content =
     (case file_string content ''ppt/presentation.xml'' of
        None \<Rightarrow> DEFAULT_PPT_WIDTH_EMU
      | Some presentationXml \<Rightarrow>
          if presentationXml = [] then DEFAULT_PPT_WIDTH_EMU
          else (case getChild (Some (parse presentationXml)) ''sldSz'' of
                  None \<Rightarrow> DEFAULT_PPT_WIDTH_EMU
                | Some sldSz \<Rightarrow>
                    (case parseInt (attr_or_zero sldSz ''cx'') of
                       NaN \<Rightarrow> DEFAULT_PPT_WIDTH_EMU
                     | Fin cx \<Rightarrow> if cx > 0 then cx else DEFAULT_PPT_WIDTH_EMU)))"

definition scaleFactor :: "rat \<Rightarrow> rat" where
  "scaleFactor width = fl (CANVAS_WIDTH / width)"

definition emuToPx :: "rat \<Rightarrow> jsnum \<Rightarrow> jsnum" where
  "emuToPx sf emu = Math_round (fl_times emu sf)"

section \<open>Slide entries and their order\<close>

text \<open>
  \<open>/slide(\d+)\.xml/\<close> tried at the front of a string: the literal \<open>slide\<close>, the longest
  run of decimal digits (no shorter run can be followed by a dot), the literal \<open>.xml\<close>.
  The result is the captured group.
\<close>

definition match_slide_here :: "string \<Rightarrow> string option" where
  "match_slide_here s =
     (if startsWith s ''slide'' then
        (let r = drop 5 s; ds = takeWhile is_digit r; rest = dropWhile is_digit r
         in if ds \<noteq> [] \<and> startsWith rest ''.xml'' then Some ds else None)
      else None)"

text \<open>\<open>a.match(/slide(\d+)\.xml/)\<close>: group 1 of the leftmost match, \<open>None\<close> for \<open>null\<close>.\<close>

fun match_slide :: "string \<Rightarrow> string option" where
  "match_slide [] = None"
| "match_slide (c # cs) =
     (case match_slide_here (c # cs) of
        Some ds \<Rightarrow> Some ds
      | None \<Rightarrow> match_slide cs)"

text \<open>\<open>name.match(/ppt\/slides\/slide\d+\.xml/)\<close> is not \<open>null\<close>.\<close>

fun is_slide_entry :: "string \<Rightarrow> bool" where
  "is_slide_entry [] = False"
| "is_slide_entry (c # cs) =
     ((startsWith (c # cs) ''ppt/slides/'' \<and> match_slide_here (drop 11 (c # cs)) \<noteq> None)
      \<or> is_slide_entry cs)"

text \<open>
  The number the comparator reads from a name. \<open>None\<close> stands for the \<open>TypeError\<close> of
  indexing a \<open>null\<close> match; the captured group is a non-empty digit string, so \<open>parseInt\<close>
  of it is a number (lemma \<open>slideNumber_of_match\<close>).
\<close>

definition slideNumber :: "string \<Rightarrow> rat option" where
  "slideNumber a =
     (case match_slide a of
        None \<Rightarrow> None
      | Some ds \<Rightarrow> (case parseInt ds of NaN \<Rightarrow> None | Fin n \<Rightarrow> Some n))"

text \<open>
  Step 1 of \<open>handlePptxUpload\<close>: the names that match the slide pattern, sorted with the
  comparator \<open>numA - numB\<close>. \<open>Array.prototype.sort\<close> is stable, as \<open>sort_key\<close> is.
\<close>

definition slideFiles :: "archive \<Rightarrow> string list option" where
  "slideFiles content =
     (let names = filter is_slide_entry (map fst content)
      in if list_all (\<lambda>a. slideNumber a \<noteq> None) names
         then Some (sort_key (\<lambda>a. the (slideNumber a)) names)
         else None)"

section \<open>Relationships\<close>

definition cleanTarget :: "string \<Rightarrow> string" where
  "cleanTarget target =
     (if startsWith target ''../'' then replace_str ''../'' ''ppt/'' target else target)"

text \<open>One iteration of the loop over the \<open>Relationship\<close> elements.\<close>

definition addRelationship :: "xml \<Rightarrow> (string \<rightharpoonup> string) \<Rightarrow> (string \<rightharpoonup> string)" where
  "addRelationship rel relsMap =
     (case (getAttribute rel ''Id'', getAttribute rel ''Target'') of
        (Some i, Some target) \<Rightarrow>
          if i \<noteq> [] \<and> target \<noteq> [] then relsMap(i \<mapsto> cleanTarget target) else relsMap
      | _ \<Rightarrow> relsMap)"

definition relsFileName :: "string \<Rightarrow> string" where
  "relsFileName slideFile =
     replace_str ''ppt/slides/'' ''ppt/slides/_rels/'' slideFile @ ''.rels''"

definition loadRelsMap :: "(string \<Rightarrow> xml) \<Rightarrow> archive \<Rightarrow> string \<Rightarrow> (string \<rightharpoonup> string)" where
  "loadRelsMap parse content slideFile =
     (case file_string content (relsFileName slideFile) of
        None \<Rightarrow> Map.empty
      | Some relsStr \<Rightarrow>
          if relsStr = [] then Map.empty
          else fold addRelationship
                 (filter (\<lambda>e. tagName e = ''Relationship'') (subtree_elements (parse relsStr)))
                 Map.empty)"

section \<open>The slide model\<close>

datatype ElementType = Widget_el | Text_el | Image_el

record Style =
  fontSize :: string
  color :: string
  fontWeight :: string
  fontStyle :: string
  textAlign :: string
  fontFamily :: string

record ReportElement =
  el_id :: string
  el_type :: ElementType
  el_widgetId :: "string option"
  el_content :: "string option"
  el_style :: "Style option"
  el_x :: jsnum
  el_y :: jsnum
  el_w :: jsnum
  el_h :: jsnum
  el_zIndex :: "nat option"

record ReportSlide =
  sl_id :: string
  sl_background :: "string option"
  sl_elements :: "ReportElement list"

text \<open>
  What the browser supplies besides the archive: the XML parser, the data-URL encoding of
  an image entry (\<open>None\<close> when reading the blob throws) and the clock read for the ids.
\<close>

record host =
  parseFromString :: "string \<Rightarrow> xml"
  readAsDataURL :: "string \<Rightarrow> string option"
  Date_now :: nat

section \<open>Text extraction\<close>

definition defaultStyle :: Style where
  "defaultStyle =
     \<lparr>fontSize = ''14px'', color = ''#333333'', fontWeight = ''normal'',
      fontStyle = ''normal'', textAlign = ''left'', fontFamily = ''Arial''\<rparr>"

text \<open>
  The body of \<open>if (fullText.length === t.textContent.length && rPr)\<close>, statement by
  statement: font size, bold, italic, color, font family.
\<close>

definition sizeStep :: "xml \<Rightarrow> Style \<Rightarrow> Style" where
  "sizeStep rPr st =
     (case getAttribute rPr ''sz'' of
        None \<Rightarrow> st
      | Some sz \<Rightarrow>
          if sz = [] then st
          else st\<lparr>fontSize := toString (Math_round (js_over (parseInt sz) 100)) @ ''px''\<rparr>)"

definition boldStep :: "xml \<Rightarrow> Style \<Rightarrow> Style" where
  "boldStep rPr st =
     (if getAttribute rPr ''b'' = Some ''1'' then st\<lparr>fontWeight := ''bold''\<rparr> else st)"

definition italicStep :: "xml \<Rightarrow> Style \<Rightarrow> Style" where
  "italicStep rPr st =
     (if getAttribute rPr ''i'' = Some ''1'' then st\<lparr>fontStyle := ''italic''\<rparr> else st)"

definition colorStep :: "xml \<Rightarrow> Style \<Rightarrow> Style" where
  "colorStep rPr st =
     (case getChild (Some rPr) ''solidFill'' of
        None \<Rightarrow> st
      | Some solidFill \<Rightarrow>
          (case getChild (Some solidFill) ''srgbClr'' of
             None \<Rightarrow> st
           | Some srgb \<Rightarrow>
               (case getAttribute srgb ''val'' of
                  None \<Rightarrow> st
                | Some val \<Rightarrow> if val = [] then st else st\<lparr>color := ''#'' @ val\<rparr>)))"

definition familyStep :: "xml \<Rightarrow> Style \<Rightarrow> Style" where
  "familyStep rPr st =
     (case getChild (Some rPr) ''latin'' of
        None \<Rightarrow> st
      | Some latin \<Rightarrow>
          (case getAttribute latin ''typeface'' of
             None \<Rightarrow> st
           | Some typeface \<Rightarrow> if typeface = [] then st else st\<lparr>fontFamily := typeface\<rparr>))"

definition captureStyle :: "xml \<Rightarrow> Style \<Rightarrow> Style" where
  "captureStyle rPr st =
     familyStep rPr (colorStep rPr (italicStep rPr (boldStep rPr (sizeStep rPr st))))"

text \<open>One iteration of the loop over the runs of a paragraph, on \<open>(fullText, style)\<close>.\<close>

definition runStep :: "xml \<Rightarrow> string \<times> Style \<Rightarrow> string \<times> Style" where
  "runStep run acc =
     (case getChild (Some run) ''t'' of
        None \<Rightarrow> acc
      | Some t \<Rightarrow>
          if textContent t = [] then acc
          else (let fullText = fst acc @ textContent t
                in case getChild (Some run) ''rPr'' of
                     None \<Rightarrow> (fullText, snd acc)
                   | Some rPr \<Rightarrow>
                       if length fullText = length (textContent t)
                       then (fullText, captureStyle rPr (snd acc))
                       else (fullText, snd acc)))"

definition alignStep :: "xml \<Rightarrow> Style \<Rightarrow> Style" where
  "alignStep para st =
     (case getChild (Some para) ''pPr'' of
        None \<Rightarrow> st
      | Some pPr \<Rightarrow>
          (let st1 = (if getAttribute pPr ''algn'' = Some ''ctr''
                      then st\<lparr>textAlign := ''center''\<rparr> else st)
           in if getAttribute pPr ''algn'' = Some ''r''
              then st1\<lparr>textAlign := ''right''\<rparr> else st1))"

text \<open>
  One iteration of the loop over the paragraphs; \<open>n\<close> is \<open>paragraphs.length\<close> and \<open>p\<close>
  the index. A line feed follows every paragraph but the last.
\<close>

definition paragraphStep :: "nat \<Rightarrow> nat \<times> xml \<Rightarrow> string \<times> Style \<Rightarrow> string \<times> Style" where
  "paragraphStep n ppara acc =
     (let r = fold runStep (getChildren (Some (snd ppara)) ''r'')
                (fst acc, alignStep (snd ppara) (snd acc))
      in (if fst ppara < n - 1 then fst r @ [CHR 0x0A] else fst r, snd r))"

definition extractText :: "xml \<Rightarrow> string \<times> Style" where
  "extractText txBody =
     (let paragraphs = getChildren (Some txBody) ''p''
      in fold (paragraphStep (length paragraphs)) (enumerate 0 paragraphs) ([], defaultStyle))"

section \<open>Shapes\<close>

text \<open>
  The position block of the shape loop: \<open>None\<close> is a \<open>continue\<close> for a missing \<open>xfrm\<close>,
  \<open>off\<close> or \<open>ext\<close>; otherwise the converted \<open>(x, y, w, h)\<close>.
\<close>

definition shapeGeometry :: "rat \<Rightarrow> xml \<Rightarrow> (jsnum \<times> jsnum \<times> jsnum \<times> jsnum) option" where
  "shapeGeometry sf shape =
     (case getChild (Some shape) ''xfrm'' of
        None \<Rightarrow> None
      | Some xfrm \<Rightarrow>
          (case getChild (Some xfrm) ''off'' of
             None \<Rightarrow> None
           | Some off \<Rightarrow>
               (case getChild (Some xfrm) ''ext'' of
                  None \<Rightarrow> None
                | Some ext \<Rightarrow>
                    Some (emuToPx sf (parseInt (attr_or_zero off ''x'')),
                          emuToPx sf (parseInt (attr_or_zero off ''y'')),
                          emuToPx sf (parseInt (attr_or_zero ext ''cx'')),
                          emuToPx sf (parseInt (attr_or_zero ext ''cy''))))))"

text \<open>\<open>blip?.getAttribute("r:embed") || blip?.getAttribute("embed")\<close>.\<close>

definition embedId :: "xml option \<Rightarrow> string option" where
  "embedId blip =
     (case blip of
        None \<Rightarrow> None
      | Some b \<Rightarrow>
          (case getAttribute b ''r:embed'' of
             None \<Rightarrow> getAttribute b ''embed''
           | Some v \<Rightarrow> if v = [] then getAttribute b ''embed'' else Some v))"

text \<open>The picture branch: what it pushes for the shape at \<open>index\<close>.\<close>

definition imageElements ::
  "host \<Rightarrow> archive \<Rightarrow> (string \<rightharpoonup> string) \<Rightarrow> nat \<Rightarrow> xml \<Rightarrow>
   jsnum \<times> jsnum \<times> jsnum \<times> jsnum \<Rightarrow> ReportElement list" where
  "imageElements hst content relsMap index shape g =
     (if \<not> is_local ''pic'' shape then []
      else case getChild (Some shape) ''blipFill'' of
        None \<Rightarrow> []
      | Some blipFill \<Rightarrow>
          (case embedId (getChild (Some blipFill) ''blip'') of
             None \<Rightarrow> []
           | Some eid \<Rightarrow>
               if eid = [] then []
               else (case relsMap eid of
                  None \<Rightarrow> []
                | Some imgPath \<Rightarrow>
                    if imgPath = [] then []
                    else (case file_string content imgPath of
                       None \<Rightarrow> []
                     | Some imgFile \<Rightarrow>
                         (case readAsDataURL hst imgFile of
                            None \<Rightarrow> []
                          | Some base64 \<Rightarrow>
                              (case g of (x, y, w, h) \<Rightarrow>
                                [\<lparr>el_id = ''img-'' @ show_nat (Date_now hst) @ ''-''
                                           @ show_nat index,
                                  el_type = Image_el, el_widgetId = None,
                                  el_content = Some base64, el_style = None,
                                  el_x = x, el_y = y, el_w = w, el_h = h,
                                  el_zIndex = Some (index + 1)\<rparr>]))))))"

text \<open>The text branch: what it pushes for the shape at \<open>index\<close>.\<close>

definition textElements ::
  "host \<Rightarrow> nat \<Rightarrow> xml \<Rightarrow> jsnum \<times> jsnum \<times> jsnum \<times> jsnum \<Rightarrow> ReportElement list" where
  "textElements hst index shape g =
     (if \<not> is_local ''sp'' shape then []
      else case getChild (Some shape) ''txBody'' of
        None \<Rightarrow> []
      | Some txBody \<Rightarrow>
          (case extractText txBody of (fullText, st) \<Rightarrow>
             if trim fullText = [] then []
             else (case g of (x, y, w, h) \<Rightarrow>
               [\<lparr>el_id = ''text-'' @ show_nat (Date_now hst) @ ''-'' @ show_nat index,
                 el_type = Text_el, el_widgetId = None,
                 el_content = Some fullText, el_style = Some st,
                 el_x = Math_max (Fin 0) x, el_y = Math_max (Fin 0) y,
                 el_w = Math_max (Fin 50) w, el_h = Math_max (Fin 20) h,
                 el_zIndex = Some (index + 1)\<rparr>])))"

text \<open>One iteration of the loop over \<open>shapes\<close>: the elements it appends.\<close>

definition shapeElements ::
  "host \<Rightarrow> archive \<Rightarrow> rat \<Rightarrow> (string \<rightharpoonup> string) \<Rightarrow> nat \<times> xml \<Rightarrow> ReportElement list" where
  "shapeElements hst content sf relsMap ishape =
     (case shapeGeometry sf (snd ishape) of
        None \<Rightarrow> []
      | Some (x, y, w, h) \<Rightarrow>
          if js_lt w (Fin 5) \<or> js_lt h (Fin 5) then []
          else imageElements hst content relsMap (fst ishape) (snd ishape) (x, y, w, h)
               @ textElements hst (fst ishape) (snd ishape) (x, y, w, h))"

section \<open>Slides and the import as a whole\<close>

definition slideId :: "host \<Rightarrow> string \<Rightarrow> string" where
  "slideId hst slideFile = ''imported-slide-'' @ show_nat (Date_now hst) @ ''-'' @ slideFile"

text \<open>
  One iteration of the loop over \<open>slideFiles\<close>: \<open>None\<close> is the \<open>continue\<close> taken when the
  entry is missing or its text is empty, otherwise the slide pushed to \<open>newSlides\<close>.
\<close>

definition decodeSlide :: "host \<Rightarrow> archive \<Rightarrow> rat \<Rightarrow> string \<Rightarrow> ReportSlide option" where
  "decodeSlide hst content sf slideFile =
     (case file_string content slideFile of
        None \<Rightarrow> None
      | Some slideXmlStr \<Rightarrow>
          if slideXmlStr = [] then None
          else (let xmlDoc = parseFromString hst slideXmlStr;
                    relsMap = loadRelsMap (parseFromString hst) content slideFile;
                    shapes = filter (\<lambda>node. is_local ''sp'' node \<or> is_local ''pic'' node)
                               (subtree_elements xmlDoc)
                in Some \<lparr>sl_id = slideId hst slideFile, sl_background = None,
                         sl_elements =
                           concat (map (shapeElements hst content sf relsMap)
                                     (enumerate 0 shapes))\<rparr>))"

definition newSlides :: "host \<Rightarrow> archive \<Rightarrow> string list \<Rightarrow> ReportSlide list" where
  "newSlides hst content files =
     List.map_filter
       (decodeSlide hst content (scaleFactor (pptWidthEmu (parseFromString hst) content)))
       files"

text \<open>
  The outcome of \<open>handlePptxUpload\<close> on an opened archive: the slides committed to the
  project, the notice shown instead, or the failure caught by the outer handler.
\<close>

datatype outcome = Imported "ReportSlide list" | Notice string | Failed

definition handlePptxUpload :: "host \<Rightarrow> archive \<Rightarrow> outcome" where
  "handlePptxUpload hst content =
     (case slideFiles content of
        None \<Rightarrow> Failed
      | Some files \<Rightarrow>
          if length (newSlides hst content files) > 0
          then Imported (newSlides hst content files)
          else Notice ''No recognizable text or images found.'')"

section \<open>Export placement\<close>









section \<open>Notions used in the statements\<close>

text \<open>A run contributes text: it has a \<open>t\<close> element whose text content is not empty.\<close>

definition has_text :: "xml \<Rightarrow> bool" where
  "has_text run =
     (case getChild (Some run) ''t'' of None \<Rightarrow> False | Some t \<Rightarrow> textContent t \<noteq> [])"

text \<open>The five style fields that come from run properties (alignment comes from paragraphs).\<close>

definition fontPart :: "Style \<Rightarrow> string \<times> string \<times> string \<times> string \<times> string" where
  "fontPart st = (fontSize st, color st, fontWeight st, fontStyle st, fontFamily st)"

text \<open>
  The style capture policy in the words of the specification: the first run in the whole
  shape that carries run-properties wins.
\<close>

definition spec_firstStyledRun :: "xml \<Rightarrow> xml option" where
  "spec_firstStyledRun txBody =
     (case filter (\<lambda>r. getChild (Some r) ''rPr'' \<noteq> None)
             (concat (map (\<lambda>p. getChildren (Some p) ''r'') (getChildren (Some txBody) ''p'')))
      of [] \<Rightarrow> None | r # _ \<Rightarrow> getChild (Some r) ''rPr'')"

definition spec_blockStyle :: "xml \<Rightarrow> Style" where
  "spec_blockStyle txBody =
     (case spec_firstStyledRun txBody of
        None \<Rightarrow> defaultStyle
      | Some rPr \<Rightarrow> captureStyle rPr defaultStyle)"

text \<open>
  The conversion contract in the words of the specification, over the rational numbers:
  \<open>round(value * scaleFactor)\<close> with \<open>scaleFactor = canvasWidthPx / documentNativeWidth\<close>.
\<close>

definition spec_pixelsFromNative :: "rat \<Rightarrow> rat \<Rightarrow> int" where
  "spec_pixelsFromNative cx v = round (v * (CANVAS_WIDTH / cx))"

text \<open>An archive entry with text to parse.\<close>

definition has_content :: "archive \<Rightarrow> string \<Rightarrow> bool" where
  "has_content content name =
     (case file_string content name of None \<Rightarrow> False | Some str \<Rightarrow> str \<noteq> [])"

section \<open>Example documents\<close>

definition plain_run :: "string \<Rightarrow> xml" where
  "plain_run txt = Element ''a'' ''r'' [] [Element ''a'' ''t'' [] [TextNode txt]]"

definition styled_run :: "(string \<times> string) list \<Rightarrow> string \<Rightarrow> xml" where
  "styled_run props txt =
     Element ''a'' ''r'' []
       [Element ''a'' ''rPr'' props [], Element ''a'' ''t'' [] [TextNode txt]]"

definition text_body :: "xml list list \<Rightarrow> xml" where
  "text_body paras = Element ''p'' ''txBody'' [] (map (Element ''a'' ''p'' []) paras)"

definition xfrm :: "string \<Rightarrow> string \<Rightarrow> string \<Rightarrow> string \<Rightarrow> xml" where
  "xfrm x y cx cy =
     Element ''p'' ''spPr'' []
       [Element ''a'' ''xfrm'' []
          [Element ''a'' ''off'' [(''x'', x), (''y'', y)] [],
           Element ''a'' ''ext'' [(''cx'', cx), (''cy'', cy)] []]]"

definition text_shape :: "string \<Rightarrow> string \<Rightarrow> string \<Rightarrow> string \<Rightarrow> string \<Rightarrow> xml" where
  "text_shape x y cx cy txt =
     Element ''p'' ''sp'' [] [xfrm x y cx cy, text_body [[plain_run txt]]]"

definition pic_shape :: "string \<Rightarrow> string \<Rightarrow> string \<Rightarrow> string \<Rightarrow> string \<Rightarrow> xml" where
  "pic_shape x y cx cy rid =
     Element ''p'' ''pic'' []
       [Element ''p'' ''blipFill'' [] [Element ''a'' ''blip'' [(''r:embed'', rid)] []],
        xfrm x y cx cy]"

definition slide_doc :: "xml list \<Rightarrow> xml" where
  "slide_doc shapes = Element ''p'' ''sld'' [] [Element ''p'' ''spTree'' [] shapes]"

text \<open>
  A host whose parser maps a few fixed texts to documents, and a small archive: one
  slide with a relationship file and one image.
\<close>

definition rels_doc :: xml where
  "rels_doc =
     Element [] ''Relationships'' []
       [Element [] ''Relationship'' [(''Id'', ''rId2''), (''Target'', ''../media/image1.png'')] [],
        Element [] ''Relationship'' [(''Id'', ''rId3''), (''Target'', ''slideLayout1.xml'')] []]"

definition example_host :: "(string \<Rightarrow> xml) \<Rightarrow> host" where
  "example_host parse =
     \<lparr>parseFromString = parse, readAsDataURL = (\<lambda>bytes. Some (''data:;base64,'' @ bytes)),
      Date_now = 0\<rparr>"

definition example_parse :: "string \<Rightarrow> xml" where
  "example_parse str =
     (if str = ''rels'' then rels_doc
      else if str = ''sizes'' then
        slide_doc [text_shape ''0'' ''0'' ''38100'' ''38100'' ''small'',
                   text_shape ''0'' ''0'' ''47625'' ''47625'' ''large'']
      else if str = ''malformed'' then
        slide_doc [text_shape ''0'' ''0'' ''wide'' ''tall'' ''Hi'']
      else if str = ''offsets'' then
        slide_doc [text_shape ''left'' ''-95250'' ''952500'' ''952500'' ''Hi'',
                   pic_shape ''-95250'' ''-95250'' ''95250'' ''95250'' ''rId2'']
      else slide_doc [])"

definition blank_archive :: archive where
  "blank_archive = [(''ppt/slides/slide1.xml'', ''blank'')]"

definition two_entry_archive :: archive where
  "two_entry_archive = [(''ppt/slides/slide2.xml'', ''blank''), (''ppt/slides/slide1.xml'', [])]"

definition sizes_archive :: archive where
  "sizes_archive = [(''ppt/slides/slide1.xml'', ''sizes'')]"

definition malformed_archive :: archive where
  "malformed_archive = [(''ppt/slides/slide1.xml'', ''malformed'')]"

definition offsets_archive :: archive where
  "offsets_archive =
     [(''ppt/slides/slide1.xml'', ''offsets''),
      (''ppt/slides/_rels/slide1.xml.rels'', ''rels''),
      (''ppt/media/image1.png'', ''PNG'')]"



text \<open>Two text bodies: the first text run unstyled, and the first text run styled.\<close>

definition unstyled_first_body :: xml where
  "unstyled_first_body =
     text_body [[plain_run ''A'', styled_run [(''sz'', ''2400''), (''b'', ''1'')] ''B'']]"

definition styled_first_body :: xml where
  "styled_first_body =
     text_body [[plain_run [], styled_run [(''sz'', ''2400''), (''b'', ''1'')] ''Hi'',
                 styled_run [(''sz'', ''1000''), (''i'', ''1'')] ''there''],
                [styled_run [(''sz'', ''3200'')] ''more'']]"


definition eleven_slides :: "string list" where
  "eleven_slides =
     [''ppt/slides/slide1.xml'', ''ppt/slides/slide2.xml'', ''ppt/slides/slide3.xml'',
      ''ppt/slides/slide4.xml'', ''ppt/slides/slide5.xml'', ''ppt/slides/slide6.xml'',
      ''ppt/slides/slide7.xml'', ''ppt/slides/slide8.xml'', ''ppt/slides/slide9.xml'',
      ''ppt/slides/slide10.xml'', ''ppt/slides/slide11.xml'']"

definition lexicographic_archive :: archive where
  "lexicographic_archive =
     [(''ppt/slides/slide1.xml'', ''s''), (''ppt/slides/slide10.xml'', ''s''),
      (''ppt/slides/slide11.xml'', ''s''), (''ppt/slides/slide2.xml'', ''s''),
      (''ppt/slides/slide3.xml'', ''s''), (''ppt/slides/slide4.xml'', ''s''),
      (''ppt/slides/slide5.xml'', ''s''), (''ppt/slides/slide6.xml'', ''s''),
      (''ppt/slides/slide7.xml'', ''s''), (''ppt/slides/slide8.xml'', ''s''),
      (''ppt/slides/slide9.xml'', ''s'')]"

section \<open>Rounding to a double\<close>

lemma round_even_floor: "\<lfloor>q\<rfloor> \<le> round_even q \<and> round_even q \<le> \<lfloor>q\<rfloor> + 1"
  by (simp add: round_even_def Let_def)

lemma round_even_ge: "of_int n \<le> q \<Longrightarrow> n \<le> round_even q"
proof -
  assume "of_int n \<le> q"
  then have "n \<le> \<lfloor>q\<rfloor>" by (simp add: le_floor_iff)
  with round_even_floor [of q] show ?thesis by simp
qed

lemma round_even_le: "q \<le> of_int n \<Longrightarrow> round_even q \<le> n"
proof (cases "q = of_int \<lfloor>q\<rfloor>")
  case True
  assume "q \<le> of_int n"
  then have "\<lfloor>q\<rfloor> \<le> n" by (simp add: floor_le_iff)
  moreover from True have "round_even q = \<lfloor>q\<rfloor>"
    by (simp add: round_even_def Let_def)
  ultimately show ?thesis by simp
next
  case False
  assume a: "q \<le> of_int n"
  have "of_int \<lfloor>q\<rfloor> \<le> q" by simp
  with False have "of_int \<lfloor>q\<rfloor> < q" by (auto simp add: less_le)
  with a have "of_int \<lfloor>q\<rfloor> < (of_int n :: rat)" by simp
  then have "\<lfloor>q\<rfloor> < n" by simp
  with round_even_floor [of q] show ?thesis by simp
qed

lemma round_even_mono: "q \<le> q' \<Longrightarrow> round_even q \<le> round_even q'"
proof -
  assume le: "q \<le> q'"
  then have fl: "\<lfloor>q\<rfloor> \<le> \<lfloor>q'\<rfloor>" by (rule floor_mono)
  show ?thesis
  proof (cases "\<lfloor>q\<rfloor> = \<lfloor>q'\<rfloor>")
    case True
    with le have "q - of_int \<lfloor>q\<rfloor> \<le> q' - of_int \<lfloor>q'\<rfloor>" by simp
    with True show ?thesis
      by (auto simp add: round_even_def Let_def)
  next
    case False
    with fl have "\<lfloor>q\<rfloor> + 1 \<le> \<lfloor>q'\<rfloor>" by simp
    with round_even_floor [of q] round_even_floor [of q'] show ?thesis by simp
  qed
qed

lemma round_even_eqI: "\<bar>q - of_int n\<bar> < 1 / 2 \<Longrightarrow> round_even q = n"
proof -
  assume a: "\<bar>q - of_int n\<bar> < 1 / 2"
  show ?thesis
  proof (cases "of_int n \<le> q")
    case True
    with a have "\<lfloor>q\<rfloor> = n"
      by (intro floor_unique) auto
    with a True show ?thesis
      by (auto simp add: round_even_def Let_def)
  next
    case False
    with a have f: "\<lfloor>q\<rfloor> = n - 1"
      by (intro floor_unique) auto
    from a False have "1 / 2 < q - of_int (n - 1)"
      by auto
    with f show ?thesis
      by (simp add: round_even_def Let_def)
  qed
qed

lemma round_even_error: "\<bar>of_int (round_even q) - q\<bar> \<le> 1 / 2"
proof -
  have "of_int \<lfloor>q\<rfloor> \<le> q" and "q < of_int \<lfloor>q\<rfloor> + 1"
    by linarith+
  then show ?thesis
    by (auto simp add: round_even_def Let_def abs_le_iff)
qed

lemma pow2_bitlen:
  assumes "0 < p"
  shows "2 powi (bitlen p - 1) \<le> (of_int p :: rat) \<and> (of_int p :: rat) < 2 powi bitlen p"
proof -
  from assms have b: "1 \<le> bitlen p"
    by (auto simp add: bitlen_alt_def)
  from bitlen_bounds [OF assms]
  have "(of_int (2 ^ nat (bitlen p - 1)) :: rat) \<le> of_int p"
    and "(of_int p :: rat) < of_int (2 ^ nat (bitlen p))"
    by (simp_all only: of_int_le_iff of_int_less_iff)
  with b show ?thesis
    by (simp add: power_int_def)
qed

lemma binade_bounds:
  assumes "0 < x"
  shows "2 powi binade x \<le> x \<and> x < 2 powi (binade x + 1)"
proof -
  obtain p q where pq: "quotient_of x = (p, q)" by (cases "quotient_of x")
  then have q: "0 < q" and x: "x = of_int p / of_int q"
    by (auto dest: quotient_of_denom_pos quotient_of_div)
  with assms have p: "0 < p"
    by (simp add: zero_less_divide_iff)
  let ?d = "bitlen p - bitlen q"
  from pow2_bitlen [OF p] have p1: "2 powi (bitlen p - 1) \<le> (of_int p :: rat)"
    and p2: "(of_int p :: rat) < 2 powi bitlen p" by blast+
  from pow2_bitlen [OF q] have q1: "2 powi (bitlen q - 1) \<le> (of_int q :: rat)"
    and q2: "(of_int q :: rat) < 2 powi bitlen q" by blast+
  have qpos: "(0::rat) < of_int q" using q by simp
  have lower: "2 powi (?d - 1) \<le> x"
  proof -
    have "2 powi (?d - 1) * (of_int q :: rat) \<le> 2 powi (?d - 1) * 2 powi bitlen q"
      using q2 by (intro mult_left_mono) auto
    also have "\<dots> = 2 powi (bitlen p - 1)"
      by (simp flip: power_int_add)
    also have "\<dots> \<le> of_int p" by (rule p1)
    finally show ?thesis
      using qpos by (simp add: x pos_le_divide_eq)
  qed
  have upper: "x < 2 powi (?d + 1)"
  proof -
    have "(of_int p :: rat) < 2 powi bitlen p" by (rule p2)
    also have "\<dots> = 2 powi (?d + 1) * 2 powi (bitlen q - 1)"
      by (simp flip: power_int_add)
    also have "\<dots> \<le> 2 powi (?d + 1) * of_int q"
      using q1 by (intro mult_left_mono) auto
    finally show ?thesis
      using qpos by (simp add: x pos_divide_less_eq)
  qed
  show ?thesis
  proof (cases "2 powi ?d \<le> x")
    case True
    with upper show ?thesis by (simp add: binade_def pq)
  next
    case False
    with lower show ?thesis by (simp add: binade_def pq)
  qed
qed

lemma binade_eqI:
  assumes "0 < x" and lo: "2 powi e \<le> x" and hi: "x < 2 powi (e + 1)"
  shows "binade x = e"
proof (rule antisym)
  from binade_bounds [OF assms(1)] have b1: "2 powi binade x \<le> x"
    and b2: "x < 2 powi (binade x + 1)" by blast+
  show "binade x \<le> e"
  proof (rule ccontr)
    assume "\<not> binade x \<le> e"
    then have "e + 1 \<le> binade x" by simp
    then have "(2::rat) powi (e + 1) \<le> 2 powi binade x"
      by (intro power_int_increasing) auto
    with b1 hi show False by simp
  qed
  show "e \<le> binade x"
  proof (rule ccontr)
    assume "\<not> e \<le> binade x"
    then have "binade x + 1 \<le> e" by simp
    then have "(2::rat) powi (binade x + 1) \<le> 2 powi e"
      by (intro power_int_increasing) auto
    with b2 lo show False by simp
  qed
qed

lemma binade_mono: "0 < x \<Longrightarrow> x \<le> y \<Longrightarrow> binade x \<le> binade y"
proof (rule ccontr)
  assume x: "0 < x" and le: "x \<le> y" and "\<not> binade x \<le> binade y"
  then have "binade y + 1 \<le> binade x" by simp
  then have "(2::rat) powi (binade y + 1) \<le> 2 powi binade x"
    by (intro power_int_increasing) auto
  moreover from x le have y: "0 < y" by simp
  ultimately show False
    using binade_bounds [OF x] binade_bounds [OF y] le by simp
qed

lemma pow2_shift:
  "(2::rat) ^ 52 * 2 powi (b - 52) = 2 powi b"
  "(2::rat) ^ 53 * 2 powi (b - 52) = 2 powi (b + 1)"
proof -
  have "(2::rat) powi b = 2 powi (52 + (b - 52))" by simp
  also have "\<dots> = 2 powi 52 * 2 powi (b - 52)"
    by (rule power_int_add) simp
  finally show "(2::rat) ^ 52 * 2 powi (b - 52) = 2 powi b" by simp
  have "b + 1 = 53 + (b - 52)" by simp
  then have "(2::rat) powi (b + 1) = 2 powi (53 + (b - 52))" by (rule arg_cong)
  also have "\<dots> = 2 powi 53 * 2 powi (b - 52)"
    by (rule power_int_add) simp
  finally show "(2::rat) ^ 53 * 2 powi (b - 52) = 2 powi (b + 1)" by simp
qed

text \<open>The scaled significand of a positive number lies between \<open>2^52\<close> and \<open>2^53\<close>.\<close>

lemma significand_bounds:
  assumes "0 < x"
  shows "2 ^ 52 \<le> x / 2 powi (binade x - 52) \<and> x / 2 powi (binade x - 52) < 2 ^ 53"
proof -
  have u: "(0::rat) < 2 powi (binade x - 52)" by simp
  from binade_bounds [OF assms]
  have "(2::rat) ^ 52 * 2 powi (binade x - 52) \<le> x"
    and "x < (2::rat) ^ 53 * 2 powi (binade x - 52)"
    by (simp_all only: pow2_shift)
  with u show ?thesis
    by (simp only: pos_le_divide_eq pos_divide_less_eq)
qed

lemma fl_pos_bounds:
  assumes "0 < x"
  shows "2 powi binade x \<le> fl_pos x \<and> fl_pos x \<le> 2 powi (binade x + 1)"
proof -
  let ?u = "(2::rat) powi (binade x - 52)"
  let ?r = "round_even (x / ?u)"
  have u: "0 < ?u" by simp
  from significand_bounds [OF assms]
  have lo: "(of_int (2 ^ 52) :: rat) \<le> x / ?u" and hi: "x / ?u \<le> of_int (2 ^ 53)"
    by simp_all
  from lo have "2 ^ 52 \<le> ?r" by (rule round_even_ge)
  then have "(of_int (2 ^ 52) :: rat) \<le> of_int ?r" by (simp only: of_int_le_iff)
  then have a: "(2::rat) ^ 52 \<le> of_int ?r" by simp
  from hi have "?r \<le> 2 ^ 53" by (rule round_even_le)
  then have "(of_int ?r :: rat) \<le> of_int (2 ^ 53)" by (simp only: of_int_le_iff)
  then have b: "(of_int ?r :: rat) \<le> 2 ^ 53" by simp
  from a u have "(2::rat) ^ 52 * ?u \<le> of_int ?r * ?u"
    by (intro mult_right_mono) auto
  moreover from b u have "of_int ?r * ?u \<le> (2::rat) ^ 53 * ?u"
    by (intro mult_right_mono) auto
  ultimately show ?thesis
    by (simp only: pow2_shift fl_pos_def Let_def)
qed

lemma fl_pos_positive: "0 < x \<Longrightarrow> 0 < fl_pos x"
proof -
  assume x: "0 < x"
  have "(0::rat) < 2 powi binade x" by simp
  also from fl_pos_bounds [OF x] have "\<dots> \<le> fl_pos x" by blast
  finally show ?thesis .
qed

lemma fl_pos_mono:
  assumes "0 < x" and "x \<le> y"
  shows "fl_pos x \<le> fl_pos y"
proof -
  from assms have y: "0 < y" by simp
  from binade_mono [OF assms] have le: "binade x \<le> binade y" .
  show ?thesis
  proof (cases "binade x = binade y")
    case True
    let ?u = "(2::rat) powi (binade y - 52)"
    have u: "0 < ?u" by simp
    from assms(2) u have "x / ?u \<le> y / ?u"
      by (simp add: divide_right_mono)
    then have "round_even (x / ?u) \<le> round_even (y / ?u)"
      by (rule round_even_mono)
    then have "(of_int (round_even (x / ?u)) :: rat) * ?u \<le> of_int (round_even (y / ?u)) * ?u"
      using u by (intro mult_right_mono) auto
    with True show ?thesis
      by (simp add: fl_pos_def Let_def)
  next
    case False
    with le have "binade x + 1 \<le> binade y" by simp
    then have "(2::rat) powi (binade x + 1) \<le> 2 powi binade y"
      by (intro power_int_increasing) auto
    with fl_pos_bounds [OF assms(1)] fl_pos_bounds [OF y] show ?thesis
      by simp
  qed
qed

lemma fl_pos_error:
  assumes "0 < x"
  shows "\<bar>fl_pos x - x\<bar> \<le> x / 2 ^ 53"
proof -
  let ?u = "(2::rat) powi (binade x - 52)"
  have u: "0 < ?u" by simp
  have "fl_pos x - x = ?u * (of_int (round_even (x / ?u)) - x / ?u)"
    using u by (simp add: fl_pos_def Let_def algebra_simps)
  then have "\<bar>fl_pos x - x\<bar> = ?u * \<bar>of_int (round_even (x / ?u)) - x / ?u\<bar>"
    using u by (simp add: abs_mult)
  also have "\<dots> \<le> ?u * (1 / 2)"
    using u round_even_error [of "x / ?u"] by (intro mult_left_mono) auto
  finally have a: "\<bar>fl_pos x - x\<bar> \<le> ?u / 2" by simp
  from binade_bounds [OF assms] have "(2::rat) ^ 52 * ?u \<le> x"
    by (simp only: pow2_shift)
  then have "?u / 2 \<le> x / 2 ^ 53" by simp
  with a show ?thesis by simp
qed

lemma fl_zero [simp]: "fl 0 = 0"
  by (simp add: fl_def)

lemma fl_positive: "0 < x \<Longrightarrow> 0 < fl x"
  by (simp add: fl_def fl_pos_positive)

lemma fl_minus: "fl (- x) = - fl x"
  by (simp add: fl_def)

lemma fl_mono: "x \<le> y \<Longrightarrow> fl x \<le> fl y"
proof -
  assume le: "x \<le> y"
  consider "0 < x" | "x \<le> 0" "0 \<le> y" | "y < 0" by linarith
  then show ?thesis
  proof cases
    case 1
    with le have "0 < y" by simp
    with 1 le show ?thesis by (simp add: fl_def fl_pos_mono)
  next
    case 2
    have "fl x \<le> 0"
      using 2(1) fl_pos_positive [of "- x"] by (auto simp add: fl_def less_le)
    moreover have "0 \<le> fl y"
      using 2(2) fl_pos_positive [of y] by (auto simp add: fl_def less_le)
    ultimately show ?thesis by simp
  next
    case 3
    with le have "0 < - y" and "- y \<le> - x" and "x < 0" by simp_all
    then show ?thesis
      using fl_pos_mono [of "- y" "- x"] by (simp add: fl_def)
  qed
qed

lemma fl_error: "\<bar>fl x - x\<bar> \<le> \<bar>x\<bar> / 2 ^ 53"
proof -
  consider "x = 0" | "0 < x" | "x < 0" by linarith
  then show ?thesis
  proof cases
    case 1
    then show ?thesis by simp
  next
    case 2
    with fl_pos_error [OF 2] show ?thesis by (simp add: fl_def)
  next
    case 3
    then have "0 < - x" by simp
    from fl_pos_error [OF this] 3 show ?thesis by (simp add: fl_def)
  qed
qed

text \<open>Evaluation at a number below \<open>2^52\<close>: \<open>n\<close> is the significand, \<open>j\<close> the scaling.\<close>

lemma fl_eqI:
  assumes "0 < x" and "2 ^ 52 \<le> x * 2 ^ j" and "x * 2 ^ j < 2 ^ 53"
    and "\<bar>x * 2 ^ j - of_int n\<bar> < 1 / 2"
  shows "fl x = of_int n / 2 ^ j"
proof -
  have j: "(0::rat) < 2 ^ j" by simp
  have p1: "(2::rat) powi (52 - int j) = 2 ^ 52 / 2 ^ j"
    using power_int_diff [of "2::rat" 52 "int j"] by simp
  have p2: "(2::rat) powi (52 - int j + 1) = 2 ^ 53 / 2 ^ j"
    using power_int_diff [of "2::rat" 53 "int j"] by (simp add: algebra_simps)
  from assms(2) j have lo: "(2::rat) ^ 52 / 2 ^ j \<le> x"
    by (simp only: pos_divide_le_eq)
  from assms(3) j have hi: "x < (2::rat) ^ 53 / 2 ^ j"
    by (simp only: pos_less_divide_eq)
  have "binade x = 52 - int j"
    using assms(1) lo hi by (intro binade_eqI) (simp_all only: p1 p2)
  then have u: "(2::rat) powi (binade x - 52) = 1 / 2 ^ j"
    by (simp add: power_int_minus inverse_eq_divide)
  from assms(4) have "round_even (x * 2 ^ j) = n"
    by (rule round_even_eqI)
  with assms(1) show ?thesis
    by (simp add: fl_def fl_pos_def u)
qed

lemma round_close: "\<bar>a - b\<bar> < 1 \<Longrightarrow> \<bar>round a - round b\<bar> \<le> 1" for a b :: rat
  unfolding round_def by linarith

text \<open>Two roundings, of the quotient and of the product, move the product by less than 1/2.\<close>

lemma product_error:
  assumes "0 < s" and "\<bar>v * s\<bar> \<le> 2 ^ 50"
  shows "\<bar>fl (v * fl s) - v * s\<bar> < 1 / 2"
proof -
  let ?A = "\<bar>v * s\<bar>"
  from fl_error [of s] assms(1) have e1: "\<bar>fl s - s\<bar> \<le> s / 2 ^ 53" by simp
  have "\<bar>v * fl s - v * s\<bar> = \<bar>v\<bar> * \<bar>fl s - s\<bar>"
    by (simp add: abs_mult flip: right_diff_distrib)
  also have "\<dots> \<le> \<bar>v\<bar> * (s / 2 ^ 53)"
    using e1 by (intro mult_left_mono) auto
  also have "\<dots> = ?A / 2 ^ 53"
    using assms(1) by (simp add: abs_mult)
  finally have d1: "\<bar>v * fl s - v * s\<bar> \<le> ?A / 2 ^ 53" .
  then have "\<bar>v * fl s\<bar> \<le> ?A + ?A / 2 ^ 53" by linarith
  then have "\<bar>v * fl s\<bar> / 2 ^ 53 \<le> (?A + ?A / 2 ^ 53) / 2 ^ 53"
    by (rule divide_right_mono) simp
  with fl_error [of "v * fl s"]
  have d2: "\<bar>fl (v * fl s) - v * fl s\<bar> \<le> (?A + ?A / 2 ^ 53) / 2 ^ 53"
    by (rule order_trans)
  have "\<bar>fl (v * fl s) - v * s\<bar> \<le> \<bar>fl (v * fl s) - v * fl s\<bar> + \<bar>v * fl s - v * s\<bar>"
    by linarith
  also have "\<dots> \<le> (?A + ?A / 2 ^ 53) / 2 ^ 53 + ?A / 2 ^ 53"
    using d1 d2 by linarith
  also have "\<dots> \<le> (2 ^ 50 + 2 ^ 50 / 2 ^ 53) / 2 ^ 53 + 2 ^ 50 / 2 ^ 53"
    using assms(2) by (intro add_mono divide_right_mono) auto
  also have "\<dots> < 1 / 2" by simp
  finally show ?thesis .
qed

section \<open>Unit conversion\<close>

lemma Math_round_mono: "a \<le> b \<Longrightarrow> js_le (Math_round (Fin a)) (Math_round (Fin b))"
  by (simp add: floor_mono)

lemma scaleFactor_pos: "0 < cx \<Longrightarrow> 0 < scaleFactor cx"
  by (simp add: scaleFactor_def CANVAS_WIDTH_def fl_positive)

text \<open>The scale factors of three page widths, as doubles.\<close>

lemma scaleFactor_values:
  "scaleFactor 9144000 = 7746664177935770 / 2 ^ 66"
  "scaleFactor 10972800 = 6455553481613141 / 2 ^ 66"
  "scaleFactor 15035520 = 4711210336792121 / 2 ^ 66"
  using fl_eqI [of "960 / 9144000" 66 7746664177935770]
    fl_eqI [of "960 / 10972800" 66 6455553481613141]
    fl_eqI [of "960 / 15035520" 66 4711210336792121]
  by (simp_all add: scaleFactor_def CANVAS_WIDTH_def)

text \<open>Products with the scale factor of the 10-inch page: each one rounds to an integer.\<close>

lemma default_products:
  "fl (914400 * scaleFactor 9144000) = 96"
  "fl (38100 * scaleFactor 9144000) = 4"
  "fl (47625 * scaleFactor 9144000) = 5"
  "fl (95250 * scaleFactor 9144000) = 10"
  "fl (952500 * scaleFactor 9144000) = 100"
  using fl_eqI [of "914400 * (7746664177935770 / 2 ^ 66)" 46 6755399441055744]
    fl_eqI [of "38100 * (7746664177935770 / 2 ^ 66)" 50 4503599627370496]
    fl_eqI [of "47625 * (7746664177935770 / 2 ^ 66)" 50 5629499534213120]
    fl_eqI [of "95250 * (7746664177935770 / 2 ^ 66)" 49 5629499534213120]
    fl_eqI [of "952500 * (7746664177935770 / 2 ^ 66)" 46 7036874417766400]
  by (simp_all add: scaleFactor_values)

text \<open>Two products whose exact value ends in a half and whose double lies just below it.\<close>

lemma tie_products:
  "fl (5715 * scaleFactor 10972800) = 9007199254740991 / 2 ^ 54"
  "fl (70479 * scaleFactor 15035520) = 5066549580791807 / 2 ^ 50"
  using fl_eqI [of "5715 * (6455553481613141 / 2 ^ 66)" 54 9007199254740991]
    fl_eqI [of "70479 * (4711210336792121 / 2 ^ 66)" 50 5066549580791807]
  by (simp_all add: scaleFactor_values)

text \<open>
  C4 (as amended). With a positive page width \<open>cx\<close>, \<open>emuToPx\<close> is \<open>Math.round\<close> of the
  double product of the value and the scale factor, the scale factor being the double
  quotient \<open>960 / cx\<close>. While the exact product is at most \<open>2^50\<close> in size the result is
  within one pixel of \<open>round (value * 960 / cx)\<close> taken over the rationals. The
  conversion is monotonic in the value, maps 0 to 0, and with \<open>cx = 9144000\<close> it maps
  914400 to 96.
\<close>

theorem emuToPx_contract:
  "0 < cx \<Longrightarrow>
     (\<forall>v. emuToPx (scaleFactor cx) (Fin v) =
            Fin (of_int (round (fl (v * fl (CANVAS_WIDTH / cx))))))
   \<and> (\<forall>v. \<bar>v * (CANVAS_WIDTH / cx)\<bar> \<le> 2 ^ 50 \<longrightarrow>
          (\<exists>px. emuToPx (scaleFactor cx) (Fin v) = Fin (of_int px)
             \<and> \<bar>px - spec_pixelsFromNative cx v\<bar> \<le> 1))
   \<and> (\<forall>v v'. v \<le> v' \<longrightarrow>
          js_le (emuToPx (scaleFactor cx) (Fin v)) (emuToPx (scaleFactor cx) (Fin v')))
   \<and> emuToPx (scaleFactor cx) (Fin 0) = Fin 0
   \<and> (cx = 9144000 \<longrightarrow> emuToPx (scaleFactor cx) (Fin 914400) = Fin 96)"
proof (intro conjI allI impI)
  assume pos: "0 < cx"
  then have sf: "0 < scaleFactor cx"
    by (rule scaleFactor_pos)
  from pos have q: "0 < CANVAS_WIDTH / cx"
    by (simp add: CANVAS_WIDTH_def)
  show eq: "emuToPx (scaleFactor cx) (Fin v) =
      Fin (of_int (round (fl (v * fl (CANVAS_WIDTH / cx)))))" for v
    by (simp add: emuToPx_def scaleFactor_def round_def)
  show "\<exists>px. emuToPx (scaleFactor cx) (Fin v) = Fin (of_int px)
      \<and> \<bar>px - spec_pixelsFromNative cx v\<bar> \<le> 1"
    if "\<bar>v * (CANVAS_WIDTH / cx)\<bar> \<le> 2 ^ 50" for v
  proof -
    from product_error [OF q that]
    have "\<bar>fl (v * fl (CANVAS_WIDTH / cx)) - v * (CANVAS_WIDTH / cx)\<bar> < 1"
      by simp
    then have "\<bar>round (fl (v * fl (CANVAS_WIDTH / cx))) - round (v * (CANVAS_WIDTH / cx))\<bar> \<le> 1"
      by (rule round_close)
    with eq [of v] show ?thesis
      by (auto simp add: spec_pixelsFromNative_def)
  qed
  show "js_le (emuToPx (scaleFactor cx) (Fin v)) (emuToPx (scaleFactor cx) (Fin v'))"
    if "v \<le> v'" for v v'
  proof -
    from that sf have "v * scaleFactor cx \<le> v' * scaleFactor cx"
      by (simp add: mult_right_mono)
    then have "fl (v * scaleFactor cx) \<le> fl (v' * scaleFactor cx)"
      by (rule fl_mono)
    then show ?thesis
      unfolding emuToPx_def fl_times.simps by (rule Math_round_mono)
  qed
  show "emuToPx (scaleFactor cx) (Fin 0) = Fin 0"
  proof -
    have "\<lfloor>(1::rat) / 2\<rfloor> = 0"
      by (rule floor_unique) simp_all
    then show ?thesis
      by (simp add: emuToPx_def)
  qed
  show "emuToPx (scaleFactor cx) (Fin 914400) = Fin 96" if "cx = 9144000"
  proof -
    have "\<lfloor>(193::rat) / 2\<rfloor> = 96"
      by (rule floor_unique) simp_all
    then show ?thesis
      using that by (simp add: emuToPx_def default_products)
  qed
qed

text \<open>The contract at the 10-inch page: one inch is 96 pixels.\<close>

theorem emuToPx_contract_witness:
  "(0::rat) < 9144000
   \<and> emuToPx (scaleFactor 9144000) (Fin 914400) = Fin 96
   \<and> emuToPx (scaleFactor 9144000) (Fin 0) = Fin 0
   \<and> js_le (emuToPx (scaleFactor 9144000) (Fin 100)) (emuToPx (scaleFactor 9144000) (Fin 20000))
   \<and> \<bar>914400 * (CANVAS_WIDTH / 9144000)\<bar> \<le> 2 ^ 50
   \<and> (\<exists>px. emuToPx (scaleFactor 9144000) (Fin 914400) = Fin (of_int px)
         \<and> \<bar>px - spec_pixelsFromNative 9144000 914400\<bar> \<le> 1)"
proof -
  have pos: "(0::rat) < 9144000" and le: "(100::rat) \<le> 20000"
    by simp_all
  have small: "\<bar>914400 * (CANVAS_WIDTH / 9144000)\<bar> \<le> 2 ^ 50"
    by (simp add: CANVAS_WIDTH_def)
  from emuToPx_contract [OF pos] pos le small show ?thesis
    by blast
qed

text \<open>
  C4 as first stated fails: with the page width 10972800 the value 5715 has the exact
  product 1/2, which rounds to 1, while the double product is just below 1/2 and the
  code returns 0; with the page width 15035520 the value 70479 has the exact product
  9/2, which rounds to 5, and the code returns 4.
\<close>

theorem exact_rounding_counterexample:
  "emuToPx (scaleFactor 10972800) (Fin 5715) = Fin 0
   \<and> spec_pixelsFromNative 10972800 5715 = 1
   \<and> emuToPx (scaleFactor 15035520) (Fin 70479) = Fin 4
   \<and> spec_pixelsFromNative 15035520 70479 = 5"
proof -
  have "\<lfloor>(9007199254740991::rat) / 2 ^ 54 + 1 / 2\<rfloor> = 0"
    by (rule floor_unique) simp_all
  then have a: "emuToPx (scaleFactor 10972800) (Fin 5715) = Fin 0"
    by (simp add: emuToPx_def tie_products)
  have "\<lfloor>(5066549580791807::rat) / 2 ^ 50 + 1 / 2\<rfloor> = 4"
    by (rule floor_unique) simp_all
  then have b: "emuToPx (scaleFactor 15035520) (Fin 70479) = Fin 4"
    by (simp add: emuToPx_def tie_products)
  have c: "spec_pixelsFromNative 10972800 5715 = 1"
    "spec_pixelsFromNative 15035520 70479 = 5"
    by (simp_all add: spec_pixelsFromNative_def CANVAS_WIDTH_def round_def)
  from a b c show ?thesis
    by simp
qed







section \<open>Slide order\<close>

lemma is_digit_facts:
  "is_digit c \<Longrightarrow> \<not> is_ws c \<and> c \<noteq> CHR ''-'' \<and> c \<noteq> CHR ''+'' \<and> c \<noteq> CHR ''x'' \<and> c \<noteq> CHR ''X''
     \<and> digit_val 10 c \<noteq> None"
  by (auto simp add: is_digit_def is_ws_def digit_val_def Let_def)

lemma read_digits_count:
  "\<forall>c \<in> set ds. is_digit c \<Longrightarrow> snd (read_digits 10 ds acc cnt) = cnt + length ds"
proof (induction ds arbitrary: acc cnt)
  case Nil
  then show ?case by simp
next
  case (Cons c ds)
  then obtain d where "digit_val 10 c = Some d"
    using is_digit_facts [of c] by auto
  with Cons show ?case by simp
qed

lemma parseInt_digits:
  assumes "ds \<noteq> []" and "\<forall>c \<in> set ds. is_digit c"
  shows "parseInt ds \<noteq> NaN"
proof -
  from assms obtain c cs where ds: "ds = c # cs"
    by (cases ds) auto
  with assms have c: "is_digit c" and cs: "\<forall>c \<in> set cs. is_digit c"
    by auto
  have ws: "dropWhile is_ws ds = ds"
    using c is_digit_facts [of c] by (simp add: ds)
  have sign: "\<not> startsWith ds ''-''" "\<not> startsWith ds ''+''"
    using c is_digit_facts [of c] by (auto simp add: ds startsWith_def)
  have hex: "\<not> startsWith ds ''0x''" "\<not> startsWith ds ''0X''"
    using cs is_digit_facts by (cases cs; auto simp add: ds startsWith_def)+
  have "snd (read_digits 10 ds 0 0) = length ds"
    using read_digits_count [OF assms(2), of 0 0] by simp
  with assms(1) have "snd (read_digits 10 ds 0 0) \<noteq> 0"
    by simp
  then show ?thesis
    by (simp add: parseInt_def ws sign hex Let_def)
qed

lemma match_slide_here_digits:
  "match_slide_here s = Some ds \<Longrightarrow> ds \<noteq> [] \<and> (\<forall>c \<in> set ds. is_digit c)"
  by (auto simp add: match_slide_here_def Let_def split: if_splits dest: set_takeWhileD)

lemma match_slide_digits:
  "match_slide s = Some ds \<Longrightarrow> ds \<noteq> [] \<and> (\<forall>c \<in> set ds. is_digit c)"
proof (induction s)
  case Nil
  then show ?case by simp
next
  case (Cons c cs)
  then show ?case
    using match_slide_here_digits [of "c # cs" ds]
    by (cases "match_slide_here (c # cs)") auto
qed

lemma match_slide_here_Nil [simp]: "match_slide_here [] = None"
  by (simp add: match_slide_here_def startsWith_def)

lemma match_slide_of_suffix:
  "match_slide_here (drop k s) \<noteq> None \<Longrightarrow> match_slide s \<noteq> None"
proof (induction s arbitrary: k)
  case Nil
  then show ?case by simp
next
  case (Cons c cs)
  show ?case
  proof (cases k)
    case 0
    with Cons.prems show ?thesis by auto
  next
    case (Suc j)
    with Cons.prems have "match_slide_here (drop j cs) \<noteq> None" by simp
    from Cons.IH [OF this] show ?thesis
      by (cases "match_slide_here (c # cs)") auto
  qed
qed

lemma is_slide_entry_match: "is_slide_entry a \<Longrightarrow> match_slide a \<noteq> None"
proof (induction a)
  case Nil
  then show ?case by simp
next
  case (Cons c cs)
  from Cons.prems consider
    "match_slide_here (drop 11 (c # cs)) \<noteq> None" | "is_slide_entry cs"
    by auto
  then show ?case
  proof cases
    case 1
    then show ?thesis by (rule match_slide_of_suffix)
  next
    case 2
    from Cons.IH [OF this] show ?thesis
      by (cases "match_slide_here (c # cs)") auto
  qed
qed

lemma slideNumber_of_match: "is_slide_entry a \<Longrightarrow> slideNumber a \<noteq> None"
proof -
  assume "is_slide_entry a"
  then obtain ds where m: "match_slide a = Some ds"
    using is_slide_entry_match by blast
  from match_slide_digits [OF m] have "parseInt ds \<noteq> NaN"
    by (intro parseInt_digits) auto
  with m show ?thesis
    by (simp add: slideNumber_def split: jsnum.splits)
qed

lemma slideFiles_eq:
  "slideFiles content =
     Some (sort_key (\<lambda>a. the (slideNumber a)) (filter is_slide_entry (map fst content)))"
  using slideNumber_of_match by (auto simp add: slideFiles_def Let_def list_all_iff)

lemma eleven_numbers:
  "map (\<lambda>a. the (slideNumber a)) eleven_slides = [1, 2, 3, 4, 5, 6, 7, 8, 9, 10, 11]"
  by code_simp

lemma filter_eq_singleton: "distinct ys \<Longrightarrow> k \<in> set ys \<Longrightarrow> filter (\<lambda>x. k = x) ys = [k]"
  by (induction ys) (auto simp add: filter_empty_conv)

lemma sort_key_unique:
  fixes f :: "'a \<Rightarrow> rat"
  assumes m: "mset xs = mset ys" and s: "sorted (map f ys)" and d: "distinct (map f ys)"
  shows "sort_key f xs = ys"
proof (rule properties_for_sort_key)
  show "mset ys = mset xs" using m by simp
  show "sorted (map f ys)" by (rule s)
  fix k assume k: "k \<in> set ys"
  have inj: "inj_on f (set ys)" and dy: "distinct ys"
    using d by (simp_all add: distinct_map)
  have sx: "set xs = set ys" using m by (rule mset_eq_setD)
  have dx: "distinct xs" using m dy by (metis mset_eq_imp_distinct_iff)
  have "filter (\<lambda>x. f k = f x) ys = filter (\<lambda>x. k = x) ys"
    using inj k by (intro filter_cong) (auto dest: inj_onD)
  moreover have "filter (\<lambda>x. f k = f x) xs = filter (\<lambda>x. k = x) xs"
    using inj k sx by (intro filter_cong) (auto dest: inj_onD)
  moreover have "filter (\<lambda>x. k = x) ys = [k]"
    using dy k by (rule filter_eq_singleton)
  moreover have "filter (\<lambda>x. k = x) xs = [k]"
    using dx k sx by (intro filter_eq_singleton) auto
  ultimately show "filter (\<lambda>x. f k = f x) ys = filter (\<lambda>x. f k = f x) xs"
    by simp
qed

lemma decodeSlide_None: "\<not> has_content content f \<Longrightarrow> decodeSlide hst content sf f = None"
  by (simp add: decodeSlide_def has_content_def split: option.splits)

lemma decodeSlide_Some:
  "has_content content f \<Longrightarrow>
   \<exists>sl. decodeSlide hst content sf f = Some sl \<and> sl_id sl = slideId hst f"
  by (auto simp add: decodeSlide_def has_content_def Let_def split: option.splits)

lemma map_filter_decodeSlide_ids:
  "map sl_id (List.map_filter (decodeSlide hst content sf) files) =
     map (slideId hst) (filter (has_content content) files)"
proof (induction files)
  case Nil
  then show ?case by (simp add: map_filter_simps)
next
  case (Cons f files)
  show ?case
  proof (cases "has_content content f")
    case True
    from decodeSlide_Some [OF True, of hst sf] obtain sl
      where "decodeSlide hst content sf f = Some sl" and "sl_id sl = slideId hst f"
      by blast
    with True Cons.IH show ?thesis by (simp add: map_filter_simps)
  next
    case False
    with decodeSlide_None [OF False, of hst sf] Cons.IH show ?thesis
      by (simp add: map_filter_simps)
  qed
qed

lemma newSlides_ids:
  "map sl_id (newSlides hst content files) =
     map (slideId hst) (filter (has_content content) files)"
  unfolding newSlides_def by (rule map_filter_decodeSlide_ids)

lemma newSlides_Nil_iff:
  "newSlides hst content files = [] \<longleftrightarrow> filter (has_content content) files = []"
  using newSlides_ids [of hst content files]
  by (metis map_is_Nil_conv)

text \<open>
  C5. The slide entries are processed in ascending order of the number in their name:
  \<open>slideFiles\<close> always succeeds with a permutation of the slide entries that is sorted by
  that number, and the emitted slides follow that order. Whenever the slide entries are
  \<open>slide1.xml\<close> to \<open>slide11.xml\<close>, in any order, the result is
  \<open>slide1.xml, slide2.xml, \<dots>, slide10.xml, slide11.xml\<close>.
\<close>

theorem slides_in_numeric_order:
  "(\<exists>files. slideFiles content = Some files
       \<and> sorted (map (\<lambda>a. the (slideNumber a)) files)
       \<and> mset files = mset (filter is_slide_entry (map fst content))
       \<and> (\<forall>hst. map sl_id (newSlides hst content files) =
                   map (slideId hst) (filter (has_content content) files)))
   \<and> (mset (filter is_slide_entry (map fst content)) = mset eleven_slides
        \<longrightarrow> slideFiles content = Some eleven_slides)
   \<and> map (\<lambda>a. the (slideNumber a)) eleven_slides = [1, 2, 3, 4, 5, 6, 7, 8, 9, 10, 11]"
proof (intro conjI impI)
  show "\<exists>files. slideFiles content = Some files
       \<and> sorted (map (\<lambda>a. the (slideNumber a)) files)
       \<and> mset files = mset (filter is_slide_entry (map fst content))
       \<and> (\<forall>hst. map sl_id (newSlides hst content files) =
                   map (slideId hst) (filter (has_content content) files))"
    by (simp add: slideFiles_eq newSlides_ids)
  show "map (\<lambda>a. the (slideNumber a)) eleven_slides = [1, 2, 3, 4, 5, 6, 7, 8, 9, 10, 11]"
    by (rule eleven_numbers)
  assume "mset (filter is_slide_entry (map fst content)) = mset eleven_slides"
  then have "sort_key (\<lambda>a. the (slideNumber a)) (filter is_slide_entry (map fst content))
      = eleven_slides"
    by (rule sort_key_unique) (simp_all add: eleven_numbers)
  then show "slideFiles content = Some eleven_slides"
    by (simp add: slideFiles_eq)
qed

text \<open>An archive that lists its eleven slides in lexicographic order.\<close>

theorem slides_in_numeric_order_witness:
  "mset (filter is_slide_entry (map fst lexicographic_archive)) = mset eleven_slides
   \<and> slideFiles lexicographic_archive = Some eleven_slides
   \<and> map sl_id (newSlides (example_host example_parse) lexicographic_archive eleven_slides)
       = map (slideId (example_host example_parse)) eleven_slides"
proof -
  have "filter is_slide_entry (map fst lexicographic_archive) = map fst lexicographic_archive"
    by (simp add: lexicographic_archive_def startsWith_def match_slide_here_def is_digit_def)
  then have m: "mset (filter is_slide_entry (map fst lexicographic_archive)) = mset eleven_slides"
    by (simp add: lexicographic_archive_def eleven_slides_def)
  have h: "filter (has_content lexicographic_archive) eleven_slides = eleven_slides"
    by (simp add: has_content_def file_string_def lexicographic_archive_def eleven_slides_def)
  from slides_in_numeric_order [of lexicographic_archive] m
  have f: "slideFiles lexicographic_archive = Some eleven_slides"
    and "\<exists>files. slideFiles lexicographic_archive = Some files
       \<and> (\<forall>hst. map sl_id (newSlides hst lexicographic_archive files) =
                   map (slideId hst) (filter (has_content lexicographic_archive) files))"
    by blast+
  then have "map sl_id (newSlides (example_host example_parse) lexicographic_archive
        eleven_slides) =
      map (slideId (example_host example_parse))
        (filter (has_content lexicographic_archive) eleven_slides)"
    by auto
  with m f h show ?thesis
    by simp
qed

section \<open>Relationship targets\<close>










section \<open>Style capture\<close>

lemma runStep_no_text: "\<not> has_text r \<Longrightarrow> runStep r acc = acc"
  by (simp add: runStep_def has_text_def split: option.splits)

lemma fold_runStep_no_text: "\<forall>r \<in> set rs. \<not> has_text r \<Longrightarrow> fold runStep rs acc = acc"
  by (induction rs arbitrary: acc) (simp_all add: runStep_no_text)

lemma runStep_after_text:
  "fst acc \<noteq> [] \<Longrightarrow> snd (runStep r acc) = snd acc \<and> fst (runStep r acc) \<noteq> []"
  by (simp add: runStep_def Let_def split: option.splits)

lemma fold_runStep_after_text:
  "fst acc \<noteq> [] \<Longrightarrow> snd (fold runStep rs acc) = snd acc \<and> fst (fold runStep rs acc) \<noteq> []"
proof (induction rs arbitrary: acc)
  case Nil
  then show ?case by simp
next
  case (Cons r rs)
  from Cons.prems have "snd (runStep r acc) = snd acc" and ne: "fst (runStep r acc) \<noteq> []"
    using runStep_after_text by blast+
  with Cons.IH [OF ne] show ?case by simp
qed

lemma runStep_first:
  "has_text r \<Longrightarrow>
   fst (runStep r ([], st)) \<noteq> [] \<and>
   snd (runStep r ([], st)) =
     (case getChild (Some r) ''rPr'' of None \<Rightarrow> st | Some rPr \<Rightarrow> captureStyle rPr st)"
  by (simp add: runStep_def has_text_def Let_def split: option.splits)

lemma alignStep_fontPart: "fontPart (alignStep p st) = fontPart st"
  by (simp add: alignStep_def fontPart_def Let_def split: option.splits)

lemma sizeStep_fields [simp]:
  "color (sizeStep rPr st) = color st" "fontWeight (sizeStep rPr st) = fontWeight st"
  "fontStyle (sizeStep rPr st) = fontStyle st" "textAlign (sizeStep rPr st) = textAlign st"
  "fontFamily (sizeStep rPr st) = fontFamily st"
  by (simp_all add: sizeStep_def split: option.splits)

lemma boldStep_fields [simp]:
  "fontSize (boldStep rPr st) = fontSize st" "color (boldStep rPr st) = color st"
  "fontStyle (boldStep rPr st) = fontStyle st" "textAlign (boldStep rPr st) = textAlign st"
  "fontFamily (boldStep rPr st) = fontFamily st"
  by (simp_all add: boldStep_def)

lemma italicStep_fields [simp]:
  "fontSize (italicStep rPr st) = fontSize st" "color (italicStep rPr st) = color st"
  "fontWeight (italicStep rPr st) = fontWeight st" "textAlign (italicStep rPr st) = textAlign st"
  "fontFamily (italicStep rPr st) = fontFamily st"
  by (simp_all add: italicStep_def)

lemma colorStep_fields [simp]:
  "fontSize (colorStep rPr st) = fontSize st" "fontWeight (colorStep rPr st) = fontWeight st"
  "fontStyle (colorStep rPr st) = fontStyle st" "textAlign (colorStep rPr st) = textAlign st"
  "fontFamily (colorStep rPr st) = fontFamily st"
  by (simp_all add: colorStep_def split: option.splits)

lemma familyStep_fields [simp]:
  "fontSize (familyStep rPr st) = fontSize st" "color (familyStep rPr st) = color st"
  "fontWeight (familyStep rPr st) = fontWeight st" "fontStyle (familyStep rPr st) = fontStyle st"
  "textAlign (familyStep rPr st) = textAlign st"
  by (simp_all add: familyStep_def split: option.splits)

lemma captureStyle_fontSize:
  "fontSize (captureStyle rPr st) =
     (case getAttribute rPr ''sz'' of
        None \<Rightarrow> fontSize st
      | Some sz \<Rightarrow> if sz = [] then fontSize st
                   else toString (Math_round (js_over (parseInt sz) 100)) @ ''px'')"
  by (simp add: captureStyle_def) (simp add: sizeStep_def split: option.splits)

lemma captureStyle_fontWeight:
  "fontWeight (captureStyle rPr st) =
     (if getAttribute rPr ''b'' = Some ''1'' then ''bold'' else fontWeight st)"
  by (simp add: captureStyle_def) (simp add: boldStep_def)

lemma captureStyle_fontStyle:
  "fontStyle (captureStyle rPr st) =
     (if getAttribute rPr ''i'' = Some ''1'' then ''italic'' else fontStyle st)"
  by (simp add: captureStyle_def) (simp add: italicStep_def)

lemma captureStyle_color:
  "color (captureStyle rPr st) =
     (case getChild (getChild (Some rPr) ''solidFill'') ''srgbClr'' of
        None \<Rightarrow> color st
      | Some srgb \<Rightarrow>
          (case getAttribute srgb ''val'' of
             None \<Rightarrow> color st
           | Some val \<Rightarrow> if val = [] then color st else ''#'' @ val))"
proof -
  have "color (captureStyle rPr st) = color (colorStep rPr st)"
    by (simp add: captureStyle_def) (simp add: colorStep_def split: option.splits)
  also have "\<dots> = (case getChild (getChild (Some rPr) ''solidFill'') ''srgbClr'' of
        None \<Rightarrow> color st
      | Some srgb \<Rightarrow>
          (case getAttribute srgb ''val'' of
             None \<Rightarrow> color st
           | Some val \<Rightarrow> if val = [] then color st else ''#'' @ val))"
    by (cases "getChild (Some rPr) ''solidFill''")
       (simp_all add: colorStep_def getChild_def [of None] split: option.splits)
  finally show ?thesis .
qed

lemma captureStyle_fontFamily:
  "fontFamily (captureStyle rPr st) =
     (case getChild (Some rPr) ''latin'' of
        None \<Rightarrow> fontFamily st
      | Some latin \<Rightarrow>
          (case getAttribute latin ''typeface'' of
             None \<Rightarrow> fontFamily st
           | Some typeface \<Rightarrow> if typeface = [] then fontFamily st else typeface))"
  by (simp add: captureStyle_def familyStep_def split: option.splits)

lemma captureStyle_textAlign: "textAlign (captureStyle rPr st) = textAlign st"
  by (simp add: captureStyle_def)

lemmas captureStyle_fields =
  captureStyle_fontSize captureStyle_fontWeight captureStyle_fontStyle captureStyle_color
  captureStyle_fontFamily

lemma captureStyle_fontPart_cong:
  "fontPart st = fontPart st' \<Longrightarrow> fontPart (captureStyle rPr st) = fontPart (captureStyle rPr st')"
  unfolding fontPart_def captureStyle_fields by (simp cong: option.case_cong if_cong)

lemma paragraphStep_after_text:
  "fst acc \<noteq> [] \<Longrightarrow>
   fontPart (snd (paragraphStep n pp acc)) = fontPart (snd acc) \<and>
   fst (paragraphStep n pp acc) \<noteq> []"
  using fold_runStep_after_text [of "(fst acc, alignStep (snd pp) (snd acc))"
      "getChildren (Some (snd pp)) ''r''"]
  by (simp add: paragraphStep_def Let_def alignStep_fontPart)

lemma fold_paragraphStep_after_text:
  "fst acc \<noteq> [] \<Longrightarrow> fontPart (snd (fold (paragraphStep n) pps acc)) = fontPart (snd acc)"
proof (induction pps arbitrary: acc)
  case Nil
  then show ?case by simp
next
  case (Cons pp pps)
  from paragraphStep_after_text [OF Cons.prems, of n pp]
  have eq: "fontPart (snd (paragraphStep n pp acc)) = fontPart (snd acc)"
    and ne: "fst (paragraphStep n pp acc) \<noteq> []"
    by blast+
  from Cons.IH [OF ne] eq show ?case by simp
qed

lemma first_paragraph_style:
  assumes runs: "getChildren (Some para) ''r'' = pre @ run # post"
    and pre: "\<forall>r \<in> set pre. \<not> has_text r"
    and run: "has_text run"
  shows "fst (paragraphStep n (p, para) ([], st)) \<noteq> [] \<and>
         fontPart (snd (paragraphStep n (p, para) ([], st))) =
           (case getChild (Some run) ''rPr'' of
              None \<Rightarrow> fontPart st
            | Some rPr \<Rightarrow> fontPart (captureStyle rPr st))"
proof -
  let ?st = "alignStep para st"
  have a: "fold runStep pre ([], ?st) = ([], ?st)"
    using pre by (rule fold_runStep_no_text)
  from runStep_first [OF run, of ?st]
  have ne: "fst (runStep run ([], ?st)) \<noteq> []"
    and st: "snd (runStep run ([], ?st)) =
      (case getChild (Some run) ''rPr'' of None \<Rightarrow> ?st | Some rPr \<Rightarrow> captureStyle rPr ?st)"
    by blast+
  from fold_runStep_after_text [OF ne, of post]
  have b: "snd (fold runStep post (runStep run ([], ?st))) = snd (runStep run ([], ?st))"
    and c: "fst (fold runStep post (runStep run ([], ?st))) \<noteq> []"
    by blast+
  have whole: "fold runStep (getChildren (Some para) ''r'') ([], ?st) =
      fold runStep post (runStep run ([], ?st))"
    by (simp add: runs a)
  have fp: "fontPart (case getChild (Some run) ''rPr'' of None \<Rightarrow> ?st | Some rPr \<Rightarrow> captureStyle rPr ?st)
      = (case getChild (Some run) ''rPr'' of None \<Rightarrow> fontPart st | Some rPr \<Rightarrow> fontPart (captureStyle rPr st))"
    using captureStyle_fontPart_cong [OF alignStep_fontPart [of para st]]
    by (simp add: alignStep_fontPart split: option.splits)
  show ?thesis
    using whole b c st fp by (simp add: paragraphStep_def Let_def)
qed

lemma first_text_run_style:
  assumes paras: "getChildren (Some txBody) ''p'' = para # paras"
    and runs: "getChildren (Some para) ''r'' = pre @ run # post"
    and pre: "\<forall>r \<in> set pre. \<not> has_text r"
    and run: "has_text run"
  shows "fontPart (snd (extractText txBody)) =
           (case getChild (Some run) ''rPr'' of
              None \<Rightarrow> fontPart defaultStyle
            | Some rPr \<Rightarrow> fontPart (captureStyle rPr defaultStyle))"
proof -
  let ?n = "length (para # paras)"
  from first_paragraph_style [OF runs pre run, of ?n 0 defaultStyle]
  have ne: "fst (paragraphStep ?n (0, para) ([], defaultStyle)) \<noteq> []"
    and fp: "fontPart (snd (paragraphStep ?n (0, para) ([], defaultStyle))) =
           (case getChild (Some run) ''rPr'' of
              None \<Rightarrow> fontPart defaultStyle
            | Some rPr \<Rightarrow> fontPart (captureStyle rPr defaultStyle))"
    by blast+
  have "extractText txBody =
      fold (paragraphStep ?n) (enumerate 1 paras) (paragraphStep ?n (0, para) ([], defaultStyle))"
    by (simp add: extractText_def paras Let_def)
  with fold_paragraphStep_after_text [OF ne, of ?n "enumerate 1 paras"] fp
  show ?thesis by simp
qed


lemma px_2400: "toString (Math_round (js_over (parseInt ''2400'') 100)) = ''24''"
proof -
  have "\<lfloor>(49::rat) / 2\<rfloor> = 24"
    by (rule floor_unique) simp_all
  moreover have "show_nat 24 = ''24''"
    by code_simp
  ultimately show ?thesis
    by (simp add: parseInt_def startsWith_def is_ws_def digit_val_def show_int_def)
qed

text \<open>
  C1 (as amended). When the first run with non-empty text lies in the first paragraph of
  the shape, the font-related style of the block is decided by that run alone: without
  run-properties all five fields keep their defaults; with run-properties the font size
  is \<open>round(sz / 100)\<close> pixels, the weight is bold when \<open>b = 1\<close>, the style italic when
  \<open>i = 1\<close>, the color the direct RGB solid fill, the family the latin typeface, and every
  field the run-properties do not carry keeps its default. Runs after it, and later
  paragraphs, do not change these fields.
\<close>

theorem block_style_from_first_text_run:
  assumes "getChildren (Some txBody) ''p'' = para # paras"
    and "getChildren (Some para) ''r'' = pre @ run # post"
    and "\<forall>r \<in> set pre. \<not> has_text r"
    and "has_text run"
  shows "(case getChild (Some run) ''rPr'' of
            None \<Rightarrow> fontPart (snd (extractText txBody)) = fontPart defaultStyle
          | Some rPr \<Rightarrow>
              fontSize (snd (extractText txBody)) =
                (case getAttribute rPr ''sz'' of
                   None \<Rightarrow> ''14px''
                 | Some sz \<Rightarrow>
                     if sz = [] then ''14px''
                     else toString (Math_round (js_over (parseInt sz) 100)) @ ''px'')
            \<and> fontWeight (snd (extractText txBody)) =
                (if getAttribute rPr ''b'' = Some ''1'' then ''bold'' else ''normal'')
            \<and> fontStyle (snd (extractText txBody)) =
                (if getAttribute rPr ''i'' = Some ''1'' then ''italic'' else ''normal'')
            \<and> color (snd (extractText txBody)) =
                (case getChild (getChild (Some rPr) ''solidFill'') ''srgbClr'' of
                   None \<Rightarrow> ''#333333''
                 | Some srgb \<Rightarrow>
                     (case getAttribute srgb ''val'' of
                        None \<Rightarrow> ''#333333''
                      | Some val \<Rightarrow> if val = [] then ''#333333'' else ''#'' @ val))
            \<and> fontFamily (snd (extractText txBody)) =
                (case getChild (Some rPr) ''latin'' of
                   None \<Rightarrow> ''Arial''
                 | Some latin \<Rightarrow>
                     (case getAttribute latin ''typeface'' of
                        None \<Rightarrow> ''Arial''
                      | Some typeface \<Rightarrow> if typeface = [] then ''Arial'' else typeface)))"
proof (cases "getChild (Some run) ''rPr''")
  case None
  with first_text_run_style [OF assms] show ?thesis by simp
next
  case (Some rPr)
  with first_text_run_style [OF assms]
  have "fontPart (snd (extractText txBody)) = fontPart (captureStyle rPr defaultStyle)"
    by simp
  then have "fontSize (snd (extractText txBody)) = fontSize (captureStyle rPr defaultStyle)"
    and "fontWeight (snd (extractText txBody)) = fontWeight (captureStyle rPr defaultStyle)"
    and "fontStyle (snd (extractText txBody)) = fontStyle (captureStyle rPr defaultStyle)"
    and "color (snd (extractText txBody)) = color (captureStyle rPr defaultStyle)"
    and "fontFamily (snd (extractText txBody)) = fontFamily (captureStyle rPr defaultStyle)"
    by (simp_all add: fontPart_def)
  then show ?thesis
    unfolding captureStyle_fields by (simp add: Some defaultStyle_def cong: option.case_cong if_cong)
qed

text \<open>
  A body whose first run has an empty text, whose second run is styled (24 pt, bold) and
  whose later runs carry other sizes: the block takes 24px and bold.
\<close>

theorem block_style_from_first_text_run_witness:
  "\<not> has_text (plain_run [])
   \<and> has_text (styled_run [(''sz'', ''2400''), (''b'', ''1'')] ''Hi'')
   \<and> fontSize (snd (extractText styled_first_body)) = ''24px''
   \<and> fontWeight (snd (extractText styled_first_body)) = ''bold''
   \<and> fontStyle (snd (extractText styled_first_body)) = ''normal''
   \<and> color (snd (extractText styled_first_body)) = ''#333333''
   \<and> fontFamily (snd (extractText styled_first_body)) = ''Arial''"
proof -
  let ?r0 = "plain_run []"
  let ?r1 = "styled_run [(''sz'', ''2400''), (''b'', ''1'')] ''Hi''"
  let ?r2 = "styled_run [(''sz'', ''1000''), (''i'', ''1'')] ''there''"
  let ?r3 = "styled_run [(''sz'', ''3200'')] ''more''"
  let ?p1 = "Element ''a'' ''p'' [] [?r0, ?r1, ?r2]"
  let ?p2 = "Element ''a'' ''p'' [] [?r3]"
  have paras: "getChildren (Some styled_first_body) ''p'' = ?p1 # [?p2]"
    by (simp add: styled_first_body_def text_body_def getChildren_def
        getElementsByTagNameNS_def plain_run_def styled_run_def)
  have runs: "getChildren (Some ?p1) ''r'' = [?r0] @ ?r1 # [?r2]"
    by (simp add: getChildren_def getElementsByTagNameNS_def plain_run_def styled_run_def)
  have pre: "\<forall>r \<in> set [?r0]. \<not> has_text r"
    by (simp add: has_text_def plain_run_def getChild_def getElementsByTagNameNS_def)
  have run: "has_text ?r1"
    by (simp add: has_text_def styled_run_def getChild_def getElementsByTagNameNS_def)
  have rPr: "getChild (Some ?r1) ''rPr'' =
      Some (Element ''a'' ''rPr'' [(''sz'', ''2400''), (''b'', ''1'')] [])"
    by (simp add: styled_run_def getChild_def getElementsByTagNameNS_def)
  have none:
    "getChild (Some (Element ''a'' ''rPr'' [(''sz'', ''2400''), (''b'', ''1'')] [])) ''solidFill''
       = None"
    "getChild (Some (Element ''a'' ''rPr'' [(''sz'', ''2400''), (''b'', ''1'')] [])) ''latin''
       = None"
    "getChild None ''srgbClr'' = None"
    by (simp_all add: getChild_def getElementsByTagNameNS_def)
  from block_style_from_first_text_run [OF paras runs pre run] pre run
  show ?thesis
    by (simp add: rPr px_2400 none)
qed

section \<open>Evaluating the example documents\<close>

lemmas xml_eval =
  getChildren_def getChild_def getElementsByTagNameNS_def attr_or_zero_def
  text_body_def plain_run_def styled_run_def xfrm_def text_shape_def pic_shape_def slide_doc_def
  rels_doc_def

lemmas text_eval =
  extractText_def paragraphStep_def runStep_def alignStep_def captureStyle_def sizeStep_def
  boldStep_def italicStep_def colorStep_def familyStep_def defaultStyle_def Let_def
  enumerate_eq_zip

lemmas num_eval =
  parseInt_def startsWith_def is_ws_def digit_val_def

lemmas entry_eval =
  startsWith_def match_slide_here_def is_digit_def file_string_def

lemma show_nat_small: "show_nat 0 = ''0''" "show_nat 1 = ''1''" "show_nat (Suc 0) = ''1''"
  by code_simp+

lemma floor_halves:
  "\<lfloor>(1::rat) / 2\<rfloor> = 0" "\<lfloor>(9::rat) / 2\<rfloor> = 4" "\<lfloor>(11::rat) / 2\<rfloor> = 5"
  "\<lfloor>(201::rat) / 2\<rfloor> = 100" "\<lfloor>(21::rat) / 2\<rfloor> = 10" "\<lfloor>- ((19::rat) / 2)\<rfloor> = - 10"
  by (rule floor_unique; simp)+

lemma host_fields [simp]:
  "parseFromString (example_host parse) = parse"
  "readAsDataURL (example_host parse) bytes = Some (''data:;base64,'' @ bytes)"
  "Date_now (example_host parse) = 0"
  by (simp_all add: example_host_def)

lemma no_presentation_width:
  "file_string content ''ppt/presentation.xml'' = None \<Longrightarrow>
   scaleFactor (pptWidthEmu parse content) = scaleFactor 9144000"
  by (simp add: pptWidthEmu_def DEFAULT_PPT_WIDTH_EMU_def)

lemma decodeSlide_eval:
  "file_string content f = Some str \<Longrightarrow> str \<noteq> [] \<Longrightarrow>
   decodeSlide hst content sf f =
     Some \<lparr>sl_id = slideId hst f, sl_background = None,
            sl_elements =
              concat (map (shapeElements hst content sf
                             (loadRelsMap (parseFromString hst) content f))
                        (enumerate 0
                           (filter (\<lambda>node. is_local ''sp'' node \<or> is_local ''pic'' node)
                              (subtree_elements (parseFromString hst str)))))\<rparr>"
  by (simp add: decodeSlide_def Let_def)

lemma single_text: "txt \<noteq> [] \<Longrightarrow> extractText (text_body [[plain_run txt]]) = (txt, defaultStyle)"
  by (simp add: xml_eval text_eval)

lemma text_shape_text:
  "trim txt \<noteq> [] \<Longrightarrow>
   textElements hst index (text_shape x y cx cy txt) (gx, gy, gw, gh) =
     [\<lparr>el_id = ''text-'' @ show_nat (Date_now hst) @ ''-'' @ show_nat index,
       el_type = Text_el, el_widgetId = None, el_content = Some txt,
       el_style = Some defaultStyle,
       el_x = Math_max (Fin 0) gx, el_y = Math_max (Fin 0) gy,
       el_w = Math_max (Fin 50) gw, el_h = Math_max (Fin 20) gh,
       el_zIndex = Some (index + 1)\<rparr>]"
proof -
  assume t: "trim txt \<noteq> []"
  then have ne: "txt \<noteq> []"
    by (auto simp add: trim_def)
  have b: "getChild (Some (text_shape x y cx cy txt)) ''txBody'' = Some (text_body [[plain_run txt]])"
    by (simp add: text_shape_def getChild_def getElementsByTagNameNS_def xfrm_def
        text_body_def plain_run_def)
  show ?thesis
    using t by (simp add: textElements_def b single_text [OF ne]) (simp add: text_shape_def)
qed

lemma text_shape_image [simp]:
  "imageElements hst content relsMap index (text_shape x y cx cy txt) g = []"
  by (simp add: imageElements_def text_shape_def)

lemma pic_shape_text [simp]: "textElements hst index (pic_shape x y cx cy rid) g = []"
  by (simp add: textElements_def pic_shape_def)

lemma pic_shape_image:
  "rid \<noteq> [] \<Longrightarrow> relsMap rid = Some path \<Longrightarrow> path \<noteq> [] \<Longrightarrow>
   file_string content path = Some bytes \<Longrightarrow> readAsDataURL hst bytes = Some url \<Longrightarrow>
   imageElements hst content relsMap index (pic_shape x y cx cy rid) (gx, gy, gw, gh) =
     [\<lparr>el_id = ''img-'' @ show_nat (Date_now hst) @ ''-'' @ show_nat index,
       el_type = Image_el, el_widgetId = None, el_content = Some url, el_style = None,
       el_x = gx, el_y = gy, el_w = gw, el_h = gh, el_zIndex = Some (index + 1)\<rparr>]"
proof -
  assume a: "rid \<noteq> []" "relsMap rid = Some path" "path \<noteq> []"
    "file_string content path = Some bytes" "readAsDataURL hst bytes = Some url"
  have e: "embedId (getChild (getChild (Some (pic_shape x y cx cy rid)) ''blipFill'') ''blip'')
      = Some rid"
    using a(1) by (simp add: embedId_def pic_shape_def getChild_def getElementsByTagNameNS_def
        xfrm_def)
  have f: "getChild (Some (pic_shape x y cx cy rid)) ''blipFill'' \<noteq> None"
    by (simp add: pic_shape_def getChild_def getElementsByTagNameNS_def xfrm_def)
  then obtain bf where bf: "getChild (Some (pic_shape x y cx cy rid)) ''blipFill'' = Some bf"
    by blast
  show ?thesis
    using a e by (simp add: imageElements_def bf) (simp add: pic_shape_def)
qed

lemma shape_geometry_eval:
  "x \<noteq> [] \<Longrightarrow> y \<noteq> [] \<Longrightarrow> cx \<noteq> [] \<Longrightarrow> cy \<noteq> [] \<Longrightarrow>
   shapeGeometry sf (text_shape x y cx cy txt) =
     Some (emuToPx sf (parseInt x), emuToPx sf (parseInt y),
           emuToPx sf (parseInt cx), emuToPx sf (parseInt cy))"
  "x \<noteq> [] \<Longrightarrow> y \<noteq> [] \<Longrightarrow> cx \<noteq> [] \<Longrightarrow> cy \<noteq> [] \<Longrightarrow>
   shapeGeometry sf (pic_shape x y cx cy rid) =
     Some (emuToPx sf (parseInt x), emuToPx sf (parseInt y),
           emuToPx sf (parseInt cx), emuToPx sf (parseInt cy))"
  by (simp_all add: shapeGeometry_def xml_eval)

lemma example_conversions:
  "emuToPx (scaleFactor 9144000) (parseInt ''0'') = Fin 0"
  "emuToPx (scaleFactor 9144000) (parseInt ''38100'') = Fin 4"
  "emuToPx (scaleFactor 9144000) (parseInt ''47625'') = Fin 5"
  "emuToPx (scaleFactor 9144000) (parseInt ''95250'') = Fin 10"
  "emuToPx (scaleFactor 9144000) (parseInt ''952500'') = Fin 100"
  "emuToPx (scaleFactor 9144000) (parseInt ''-95250'') = Fin (- 10)"
  "emuToPx (scaleFactor 9144000) (parseInt ''wide'') = NaN"
  "emuToPx (scaleFactor 9144000) (parseInt ''tall'') = NaN"
  "emuToPx (scaleFactor 9144000) (parseInt ''left'') = NaN"
  by (simp_all add: emuToPx_def num_eval floor_halves default_products fl_minus)


lemma example_rels:
  "loadRelsMap example_parse offsets_archive ''ppt/slides/slide1.xml'' ''rId2''
     = Some ''ppt/media/image1.png''"
  by (simp add: loadRelsMap_def relsFileName_def file_string_def offsets_archive_def
      startsWith_def example_parse_def rels_doc_def addRelationship_def cleanTarget_def)

lemma no_rels:
  "file_string content (relsFileName f) = None \<Longrightarrow> loadRelsMap parse content f = Map.empty"
  by (simp add: loadRelsMap_def)

lemma example_files:
  "file_string malformed_archive ''ppt/slides/slide1.xml'' = Some ''malformed''"
  "file_string sizes_archive ''ppt/slides/slide1.xml'' = Some ''sizes''"
  "file_string offsets_archive ''ppt/slides/slide1.xml'' = Some ''offsets''"
  "file_string blank_archive ''ppt/slides/slide1.xml'' = Some ''blank''"
  "file_string offsets_archive ''ppt/media/image1.png'' = Some ''PNG''"
  "file_string malformed_archive ''ppt/presentation.xml'' = None"
  "file_string sizes_archive ''ppt/presentation.xml'' = None"
  "file_string offsets_archive ''ppt/presentation.xml'' = None"
  "file_string blank_archive ''ppt/presentation.xml'' = None"
  "file_string two_entry_archive ''ppt/presentation.xml'' = None"
  by (simp_all add: file_string_def malformed_archive_def sizes_archive_def
      offsets_archive_def blank_archive_def two_entry_archive_def)

lemma example_slideFiles:
  "slideFiles malformed_archive = Some [''ppt/slides/slide1.xml'']"
  "slideFiles sizes_archive = Some [''ppt/slides/slide1.xml'']"
  "slideFiles offsets_archive = Some [''ppt/slides/slide1.xml'']"
  "slideFiles blank_archive = Some [''ppt/slides/slide1.xml'']"
  by (simp_all add: slideFiles_eq malformed_archive_def sizes_archive_def
      offsets_archive_def blank_archive_def entry_eval)

lemma example_shapes:
  "filter (\<lambda>node. is_local ''sp'' node \<or> is_local ''pic'' node)
     (subtree_elements (example_parse ''malformed'')) =
   [text_shape ''0'' ''0'' ''wide'' ''tall'' ''Hi'']"
  "filter (\<lambda>node. is_local ''sp'' node \<or> is_local ''pic'' node)
     (subtree_elements (example_parse ''sizes'')) =
   [text_shape ''0'' ''0'' ''38100'' ''38100'' ''small'',
    text_shape ''0'' ''0'' ''47625'' ''47625'' ''large'']"
  "filter (\<lambda>node. is_local ''sp'' node \<or> is_local ''pic'' node)
     (subtree_elements (example_parse ''offsets'')) =
   [text_shape ''left'' ''-95250'' ''952500'' ''952500'' ''Hi'',
    pic_shape ''-95250'' ''-95250'' ''95250'' ''95250'' ''rId2'']"
  "filter (\<lambda>node. is_local ''sp'' node \<or> is_local ''pic'' node)
     (subtree_elements (example_parse ''blank'')) = []"
  by (simp_all add: example_parse_def xml_eval)

lemma rels_name: "relsFileName ''ppt/slides/slide1.xml'' = ''ppt/slides/_rels/slide1.xml.rels''"
  by (simp add: relsFileName_def startsWith_def)

lemma example_no_rels:
  "loadRelsMap parse malformed_archive ''ppt/slides/slide1.xml'' = Map.empty"
  "loadRelsMap parse sizes_archive ''ppt/slides/slide1.xml'' = Map.empty"
  "loadRelsMap parse blank_archive ''ppt/slides/slide1.xml'' = Map.empty"
  by (simp_all add: no_rels rels_name file_string_def malformed_archive_def sizes_archive_def
      blank_archive_def)


text \<open>
  C1 as first stated fails: when the first text run carries no run-properties and the
  second does, the block keeps the default size and weight, while the first run that
  carries run-properties has 24 pt and bold.
\<close>

theorem first_styled_run_counterexample:
  "fontSize (snd (extractText unstyled_first_body)) = ''14px''
   \<and> fontSize (spec_blockStyle unstyled_first_body) = ''24px''
   \<and> fontWeight (snd (extractText unstyled_first_body)) = ''normal''
   \<and> fontWeight (spec_blockStyle unstyled_first_body) = ''bold''"
proof -
  have a: "extractText unstyled_first_body = (''AB'', defaultStyle)"
    by (simp add: unstyled_first_body_def xml_eval text_eval)
  have b: "spec_firstStyledRun unstyled_first_body =
      Some (Element ''a'' ''rPr'' [(''sz'', ''2400''), (''b'', ''1'')] [])"
    by (simp add: unstyled_first_body_def spec_firstStyledRun_def xml_eval)
  have c: "fontSize (spec_blockStyle unstyled_first_body) = ''24px''"
    "fontWeight (spec_blockStyle unstyled_first_body) = ''bold''"
    by (simp_all add: spec_blockStyle_def b captureStyle_fields px_2400 defaultStyle_def)
  from a c show ?thesis
    by (simp add: defaultStyle_def)
qed

section \<open>Shapes: threshold, malformed geometry, clamping\<close>

lemma sizes_slide:
  "decodeSlide (example_host example_parse) sizes_archive (scaleFactor 9144000) ''ppt/slides/slide1.xml'' =
     Some \<lparr>sl_id = ''imported-slide-0-ppt/slides/slide1.xml'', sl_background = None,
            sl_elements =
              [\<lparr>el_id = ''text-0-1'', el_type = Text_el, el_widgetId = None,
                el_content = Some ''large'', el_style = Some defaultStyle,
                el_x = Fin 0, el_y = Fin 0, el_w = Fin 50, el_h = Fin 20,
                el_zIndex = Some 2\<rparr>]\<rparr>"
proof -
  have s: "shapeElements (example_host example_parse) sizes_archive (scaleFactor 9144000) Map.empty
      (0, text_shape ''0'' ''0'' ''38100'' ''38100'' ''small'') = []"
    by (simp add: shapeElements_def shape_geometry_eval example_conversions)
  have l: "shapeElements (example_host example_parse) sizes_archive (scaleFactor 9144000) Map.empty
      (1, text_shape ''0'' ''0'' ''47625'' ''47625'' ''large'') =
    [\<lparr>el_id = ''text-0-1'', el_type = Text_el, el_widgetId = None,
      el_content = Some ''large'', el_style = Some defaultStyle,
      el_x = Fin 0, el_y = Fin 0, el_w = Fin 50, el_h = Fin 20, el_zIndex = Some 2\<rparr>]"
    by (simp add: shapeElements_def shape_geometry_eval example_conversions text_shape_text
        trim_def is_ws_def show_nat_small)
  from s l show ?thesis
    by (simp add: decodeSlide_eval [OF example_files(2)] example_shapes example_no_rels
        enumerate_eq_zip upt_rec slideId_def show_nat_small)
qed

lemma sizes_import:
  "newSlides (example_host example_parse) sizes_archive [''ppt/slides/slide1.xml''] =
     [\<lparr>sl_id = ''imported-slide-0-ppt/slides/slide1.xml'', sl_background = None,
       sl_elements =
         [\<lparr>el_id = ''text-0-1'', el_type = Text_el, el_widgetId = None,
           el_content = Some ''large'', el_style = Some defaultStyle,
           el_x = Fin 0, el_y = Fin 0, el_w = Fin 50, el_h = Fin 20,
           el_zIndex = Some 2\<rparr>]\<rparr>]"
  by (simp add: newSlides_def no_presentation_width [OF example_files(7)] sizes_slide)

text \<open>
  C6. A shape whose converted width or height is below 5 contributes no element; a text
  shape with text whose converted width and height are both at least 5 contributes exactly
  one. In the example slide the shape that converts to 4 by 4 is absent from the decoded
  element list and the one that converts to 5 by 5 is present.
\<close>

theorem small_shapes_dropped:
  "(\<forall>hst content sf relsMap index shape x y w h.
       shapeGeometry sf shape = Some (x, y, w, h) \<and> (js_lt w (Fin 5) \<or> js_lt h (Fin 5))
       \<longrightarrow> shapeElements hst content sf relsMap (index, shape) = [])
   \<and> (\<forall>hst content sf relsMap index shape x y w h txBody.
       shapeGeometry sf shape = Some (x, y, Fin w, Fin h) \<and> 5 \<le> w \<and> 5 \<le> h
       \<and> is_local ''sp'' shape \<and> getChild (Some shape) ''txBody'' = Some txBody
       \<and> trim (fst (extractText txBody)) \<noteq> []
       \<longrightarrow> length (shapeElements hst content sf relsMap (index, shape)) = 1)
   \<and> shapeGeometry (scaleFactor 9144000) (text_shape ''0'' ''0'' ''38100'' ''38100'' ''small'')
        = Some (Fin 0, Fin 0, Fin 4, Fin 4)
   \<and> shapeGeometry (scaleFactor 9144000) (text_shape ''0'' ''0'' ''47625'' ''47625'' ''large'')
        = Some (Fin 0, Fin 0, Fin 5, Fin 5)
   \<and> handlePptxUpload (example_host example_parse) sizes_archive =
       Imported
         [\<lparr>sl_id = ''imported-slide-0-ppt/slides/slide1.xml'', sl_background = None,
           sl_elements =
             [\<lparr>el_id = ''text-0-1'', el_type = Text_el, el_widgetId = None,
               el_content = Some ''large'', el_style = Some defaultStyle,
               el_x = Fin 0, el_y = Fin 0, el_w = Fin 50, el_h = Fin 20,
               el_zIndex = Some 2\<rparr>]\<rparr>]"
proof (intro conjI allI impI)
  fix hst :: host and content :: archive and sf relsMap index shape x y w h
  assume "shapeGeometry sf shape = Some (x, y, w, h) \<and> (js_lt w (Fin 5) \<or> js_lt h (Fin 5))"
  then show "shapeElements hst content sf relsMap (index, shape) = []"
    by (auto simp add: shapeElements_def)
next
  fix hst :: host and content :: archive and sf relsMap index shape x y w h txBody
  assume a: "shapeGeometry sf shape = Some (x, y, Fin w, Fin h) \<and> 5 \<le> w \<and> 5 \<le> h
       \<and> is_local ''sp'' shape \<and> getChild (Some shape) ''txBody'' = Some txBody
       \<and> trim (fst (extractText txBody)) \<noteq> []"
  then have "\<not> is_local ''pic'' shape"
    by (cases shape) auto
  with a show "length (shapeElements hst content sf relsMap (index, shape)) = 1"
    by (cases "extractText txBody")
       (simp add: shapeElements_def imageElements_def textElements_def)
next
  show "shapeGeometry (scaleFactor 9144000) (text_shape ''0'' ''0'' ''38100'' ''38100'' ''small'')
        = Some (Fin 0, Fin 0, Fin 4, Fin 4)"
    by (simp add: shape_geometry_eval example_conversions)
  show "shapeGeometry (scaleFactor 9144000) (text_shape ''0'' ''0'' ''47625'' ''47625'' ''large'')
        = Some (Fin 0, Fin 0, Fin 5, Fin 5)"
    by (simp add: shape_geometry_eval example_conversions)
  show "handlePptxUpload (example_host example_parse) sizes_archive =
       Imported
         [\<lparr>sl_id = ''imported-slide-0-ppt/slides/slide1.xml'', sl_background = None,
           sl_elements =
             [\<lparr>el_id = ''text-0-1'', el_type = Text_el, el_widgetId = None,
               el_content = Some ''large'', el_style = Some defaultStyle,
               el_x = Fin 0, el_y = Fin 0, el_w = Fin 50, el_h = Fin 20,
               el_zIndex = Some 2\<rparr>]\<rparr>]"
    by (simp add: handlePptxUpload_def example_slideFiles sizes_import)
qed

text \<open>The two shapes of the example slide, one by one.\<close>

theorem small_shapes_dropped_witness:
  "shapeGeometry (scaleFactor 9144000) (text_shape ''0'' ''0'' ''38100'' ''38100'' ''small'')
     = Some (Fin 0, Fin 0, Fin 4, Fin 4)
   \<and> js_lt (Fin 4) (Fin 5)
   \<and> shapeElements (example_host example_parse) sizes_archive (scaleFactor 9144000) Map.empty
        (0, text_shape ''0'' ''0'' ''38100'' ''38100'' ''small'') = []
   \<and> shapeGeometry (scaleFactor 9144000) (text_shape ''0'' ''0'' ''47625'' ''47625'' ''large'')
     = Some (Fin 0, Fin 0, Fin 5, Fin 5)
   \<and> length (shapeElements (example_host example_parse) sizes_archive (scaleFactor 9144000) Map.empty
        (1, text_shape ''0'' ''0'' ''47625'' ''47625'' ''large'')) = 1"
proof -
  have g4: "shapeGeometry (scaleFactor 9144000) (text_shape ''0'' ''0'' ''38100'' ''38100'' ''small'')
      = Some (Fin 0, Fin 0, Fin 4, Fin 4)"
    and g5: "shapeGeometry (scaleFactor 9144000) (text_shape ''0'' ''0'' ''47625'' ''47625'' ''large'')
      = Some (Fin 0, Fin 0, Fin 5, Fin 5)"
    by (simp_all add: shape_geometry_eval example_conversions)
  have lt: "js_lt (Fin 4) (Fin 5)" and ge: "(5::rat) \<le> 5"
    by simp_all
  have sp: "is_local ''sp'' (text_shape ''0'' ''0'' ''47625'' ''47625'' ''large'')"
    by (simp add: text_shape_def)
  have tb: "getChild (Some (text_shape ''0'' ''0'' ''47625'' ''47625'' ''large'')) ''txBody''
      = Some (text_body [[plain_run ''large'']])"
    by (simp add: xml_eval)
  have tx: "trim (fst (extractText (text_body [[plain_run ''large'']]))) \<noteq> []"
    by (simp add: single_text trim_def is_ws_def)
  note drop = small_shapes_dropped [THEN conjunct1, rule_format]
  note keep = small_shapes_dropped [THEN conjunct2, THEN conjunct1, rule_format]
  have a: "shapeElements (example_host example_parse) sizes_archive (scaleFactor 9144000) Map.empty
        (0, text_shape ''0'' ''0'' ''38100'' ''38100'' ''small'') = []"
    by (rule drop [where x = "Fin 0" and y = "Fin 0" and w = "Fin 4" and h = "Fin 4"])
       (simp add: g4)
  have b: "length (shapeElements (example_host example_parse) sizes_archive (scaleFactor 9144000) Map.empty
        (1, text_shape ''0'' ''0'' ''47625'' ''47625'' ''large'')) = 1"
    by (rule keep [where x = "Fin 0" and y = "Fin 0" and w = 5 and h = 5
          and txBody = "text_body [[plain_run ''large'']]"])
       (simp add: g5 sp tb tx)
  from g4 g5 lt a b show ?thesis
    by simp
qed

text \<open>
  C3 (the code at the failing input). A text shape whose extent attributes are the
  non-numeric strings \<open>wide\<close> and \<open>tall\<close> is not skipped: the threshold test is false for
  \<open>NaN\<close>, and the shape enters the decoded slide with width and height \<open>NaN\<close>.
\<close>

theorem non_numeric_extent_kept:
  "handlePptxUpload (example_host example_parse) malformed_archive =
     Imported
       [\<lparr>sl_id = ''imported-slide-0-ppt/slides/slide1.xml'', sl_background = None,
         sl_elements =
           [\<lparr>el_id = ''text-0-0'', el_type = Text_el, el_widgetId = None,
             el_content = Some ''Hi'', el_style = Some defaultStyle,
             el_x = Fin 0, el_y = Fin 0, el_w = NaN, el_h = NaN, el_zIndex = Some 1\<rparr>]\<rparr>]"
proof -
  have "shapeElements (example_host example_parse) malformed_archive (scaleFactor 9144000) Map.empty
      (0, text_shape ''0'' ''0'' ''wide'' ''tall'' ''Hi'') =
    [\<lparr>el_id = ''text-0-0'', el_type = Text_el, el_widgetId = None,
      el_content = Some ''Hi'', el_style = Some defaultStyle,
      el_x = Fin 0, el_y = Fin 0, el_w = NaN, el_h = NaN, el_zIndex = Some 1\<rparr>]"
    by (simp add: shapeElements_def shape_geometry_eval example_conversions text_shape_text
        trim_def is_ws_def show_nat_small)
  then have "decodeSlide (example_host example_parse) malformed_archive (scaleFactor 9144000)
      ''ppt/slides/slide1.xml'' =
    Some \<lparr>sl_id = ''imported-slide-0-ppt/slides/slide1.xml'', sl_background = None,
         sl_elements =
           [\<lparr>el_id = ''text-0-0'', el_type = Text_el, el_widgetId = None,
             el_content = Some ''Hi'', el_style = Some defaultStyle,
             el_x = Fin 0, el_y = Fin 0, el_w = NaN, el_h = NaN, el_zIndex = Some 1\<rparr>]\<rparr>"
    by (simp add: decodeSlide_eval [OF example_files(1)] example_shapes example_no_rels
        enumerate_eq_zip slideId_def show_nat_small)
  then show ?thesis
    by (simp add: handlePptxUpload_def example_slideFiles newSlides_def
        no_presentation_width [OF example_files(6)])
qed


text \<open>
  C10 (the code at the failing input). A text shape whose offset attribute \<open>x\<close> is the
  non-numeric string \<open>left\<close> enters the decoded slide with \<open>x = NaN\<close>, which is not at
  least 0; its negative \<open>y\<close> is clamped to 0, and the picture keeps its negative offsets.
\<close>

theorem non_numeric_offset_not_clamped:
  "handlePptxUpload (example_host example_parse) offsets_archive =
     Imported
       [\<lparr>sl_id = ''imported-slide-0-ppt/slides/slide1.xml'', sl_background = None,
         sl_elements =
           [\<lparr>el_id = ''text-0-0'', el_type = Text_el, el_widgetId = None,
             el_content = Some ''Hi'', el_style = Some defaultStyle,
             el_x = NaN, el_y = Fin 0, el_w = Fin 100, el_h = Fin 100, el_zIndex = Some 1\<rparr>,
            \<lparr>el_id = ''img-0-1'', el_type = Image_el, el_widgetId = None,
             el_content = Some ''data:;base64,PNG'', el_style = None,
             el_x = Fin (- 10), el_y = Fin (- 10), el_w = Fin 10, el_h = Fin 10,
             el_zIndex = Some 2\<rparr>]\<rparr>]"
proof -
  let ?m = "loadRelsMap example_parse offsets_archive ''ppt/slides/slide1.xml''"
  have t: "shapeElements (example_host example_parse) offsets_archive (scaleFactor 9144000) ?m
      (0, text_shape ''left'' ''-95250'' ''952500'' ''952500'' ''Hi'') =
    [\<lparr>el_id = ''text-0-0'', el_type = Text_el, el_widgetId = None,
      el_content = Some ''Hi'', el_style = Some defaultStyle,
      el_x = NaN, el_y = Fin 0, el_w = Fin 100, el_h = Fin 100, el_zIndex = Some 1\<rparr>]"
    by (simp add: shapeElements_def shape_geometry_eval example_conversions text_shape_text
        trim_def is_ws_def show_nat_small)
  have i: "shapeElements (example_host example_parse) offsets_archive (scaleFactor 9144000) ?m
      (1, pic_shape ''-95250'' ''-95250'' ''95250'' ''95250'' ''rId2'') =
    [\<lparr>el_id = ''img-0-1'', el_type = Image_el, el_widgetId = None,
      el_content = Some ''data:;base64,PNG'', el_style = None,
      el_x = Fin (- 10), el_y = Fin (- 10), el_w = Fin 10, el_h = Fin 10,
      el_zIndex = Some 2\<rparr>]"
    using pic_shape_image [of "''rId2''" ?m "''ppt/media/image1.png''" offsets_archive "''PNG''"
        "example_host example_parse" "''data:;base64,PNG''" 1]
    by (simp add: shapeElements_def shape_geometry_eval example_conversions
        example_rels example_files show_nat_small)
  from t i have "decodeSlide (example_host example_parse) offsets_archive (scaleFactor 9144000)
      ''ppt/slides/slide1.xml'' =
    Some \<lparr>sl_id = ''imported-slide-0-ppt/slides/slide1.xml'', sl_background = None,
         sl_elements =
           [\<lparr>el_id = ''text-0-0'', el_type = Text_el, el_widgetId = None,
             el_content = Some ''Hi'', el_style = Some defaultStyle,
             el_x = NaN, el_y = Fin 0, el_w = Fin 100, el_h = Fin 100, el_zIndex = Some 1\<rparr>,
            \<lparr>el_id = ''img-0-1'', el_type = Image_el, el_widgetId = None,
             el_content = Some ''data:;base64,PNG'', el_style = None,
             el_x = Fin (- 10), el_y = Fin (- 10), el_w = Fin 10, el_h = Fin 10,
             el_zIndex = Some 2\<rparr>]\<rparr>"
    by (simp add: decodeSlide_eval [OF example_files(3)] example_shapes
        enumerate_eq_zip upt_rec slideId_def show_nat_small)
  then show ?thesis
    by (simp add: handlePptxUpload_def example_slideFiles newSlides_def
        no_presentation_width [OF example_files(8)])
qed


text \<open>When the converted geometry is numeric the clamp holds, and pictures are unclamped.\<close>

lemma text_elements_clamped:
  "e \<in> set (textElements hst index shape (Fin x, Fin y, Fin w, Fin h)) \<Longrightarrow>
     el_type e = Text_el \<and> el_x e = Fin (max 0 x) \<and> el_y e = Fin (max 0 y)
     \<and> el_w e = Fin (max 50 w) \<and> el_h e = Fin (max 20 h)"
  by (auto simp add: textElements_def split: if_splits option.splits prod.splits)

lemma image_elements_unclamped:
  "e \<in> set (imageElements hst content relsMap index shape (x, y, w, h)) \<Longrightarrow>
     el_type e = Image_el \<and> el_x e = x \<and> el_y e = y \<and> el_w e = w \<and> el_h e = h"
  by (auto simp add: imageElements_def split: if_splits option.splits)

section \<open>Emitted slides and the empty-result notice\<close>

lemma two_entry_slideFiles:
  "slideFiles two_entry_archive = Some [''ppt/slides/slide1.xml'', ''ppt/slides/slide2.xml'']"
proof -
  have n: "slideNumber ''ppt/slides/slide1.xml'' = Some 1"
    "slideNumber ''ppt/slides/slide2.xml'' = Some 2"
    by code_simp+
  show ?thesis
    by (simp add: slideFiles_eq two_entry_archive_def entry_eval n)
qed

lemma two_entry_import:
  "newSlides (example_host example_parse) two_entry_archive
       [''ppt/slides/slide1.xml'', ''ppt/slides/slide2.xml''] =
     [\<lparr>sl_id = ''imported-slide-0-ppt/slides/slide2.xml'', sl_background = None,
       sl_elements = []\<rparr>]"
proof -
  have f: "file_string two_entry_archive ''ppt/slides/slide2.xml'' = Some ''blank''"
    by (simp add: file_string_def two_entry_archive_def)
  have e: "\<not> has_content two_entry_archive ''ppt/slides/slide1.xml''"
    by (simp add: has_content_def file_string_def two_entry_archive_def)
  have "decodeSlide (example_host example_parse) two_entry_archive (scaleFactor 9144000)
      ''ppt/slides/slide2.xml'' =
    Some \<lparr>sl_id = ''imported-slide-0-ppt/slides/slide2.xml'', sl_background = None,
           sl_elements = []\<rparr>"
    by (simp add: decodeSlide_eval [OF f] example_shapes enumerate_eq_zip
        slideId_def show_nat_small)
  then show ?thesis
    by (simp add: newSlides_def no_presentation_width [OF example_files(10)]
        decodeSlide_None [OF e])
qed

text \<open>
  C2 (as amended). One slide is emitted for every slide entry whose text is not empty, in
  the order of \<open>slideFiles\<close> and whatever the number of elements it yields. When no slide
  is emitted the notice is shown instead of committing; when an emitted slide has an
  element, all emitted slides are committed.
\<close>

theorem slides_emitted_and_notice:
  "slideFiles content = Some files \<Longrightarrow>
     map sl_id (newSlides hst content files) =
       map (slideId hst) (filter (has_content content) files)
   \<and> (filter (has_content content) files = []
        \<longrightarrow> handlePptxUpload hst content = Notice ''No recognizable text or images found.'')
   \<and> ((\<exists>sl \<in> set (newSlides hst content files). sl_elements sl \<noteq> [])
        \<longrightarrow> handlePptxUpload hst content = Imported (newSlides hst content files))"
proof (intro conjI impI)
  assume f: "slideFiles content = Some files"
  show "map sl_id (newSlides hst content files) =
       map (slideId hst) (filter (has_content content) files)"
    by (rule newSlides_ids)
  show "handlePptxUpload hst content = Notice ''No recognizable text or images found.''"
    if "filter (has_content content) files = []"
    using that f newSlides_Nil_iff [of hst content files]
    by (simp add: handlePptxUpload_def)
  show "handlePptxUpload hst content = Imported (newSlides hst content files)"
    if "\<exists>sl \<in> set (newSlides hst content files). sl_elements sl \<noteq> []"
  proof -
    from that have "newSlides hst content files \<noteq> []"
      by auto
    with f show ?thesis
      by (simp add: handlePptxUpload_def)
  qed
qed

text \<open>An archive with one slide that has an element, and the empty archive.\<close>

theorem slides_emitted_and_notice_witness:
  "slideFiles sizes_archive = Some [''ppt/slides/slide1.xml'']
   \<and> map sl_id (newSlides (example_host example_parse) sizes_archive [''ppt/slides/slide1.xml''])
       = [slideId (example_host example_parse) ''ppt/slides/slide1.xml'']
   \<and> handlePptxUpload (example_host example_parse) sizes_archive =
       Imported (newSlides (example_host example_parse) sizes_archive
                   [''ppt/slides/slide1.xml''])
   \<and> slideFiles [] = Some []
   \<and> handlePptxUpload (example_host example_parse) []
       = Notice ''No recognizable text or images found.''"
proof -
  have f: "slideFiles sizes_archive = Some [''ppt/slides/slide1.xml'']"
    by (rule example_slideFiles)
  have h: "filter (has_content sizes_archive) [''ppt/slides/slide1.xml'']
      = [''ppt/slides/slide1.xml'']"
    by (simp add: has_content_def example_files)
  have x: "\<exists>sl \<in> set (newSlides (example_host example_parse) sizes_archive
      [''ppt/slides/slide1.xml'']). sl_elements sl \<noteq> []"
    by (simp add: sizes_import)
  have e: "slideFiles [] = Some []"
    by (simp add: slideFiles_eq)
  have n: "filter (has_content []) [] = []"
    by simp
  from slides_emitted_and_notice [OF f, of "example_host example_parse"]
    slides_emitted_and_notice [OF e, of "example_host example_parse"] f h x e n
  show ?thesis
    by simp
qed

text \<open>
  C2 as first stated fails: an archive whose only slide has no shape is committed as one
  blank slide and no notice is shown, although no slide produced an element; and of two
  slide entries, one with an empty text, only one slide is emitted.
\<close>

theorem blank_slide_committed_counterexample:
  "handlePptxUpload (example_host example_parse) blank_archive =
     Imported [\<lparr>sl_id = ''imported-slide-0-ppt/slides/slide1.xml'', sl_background = None,
                sl_elements = []\<rparr>]
   \<and> slideFiles two_entry_archive
       = Some [''ppt/slides/slide1.xml'', ''ppt/slides/slide2.xml'']
   \<and> handlePptxUpload (example_host example_parse) two_entry_archive =
     Imported [\<lparr>sl_id = ''imported-slide-0-ppt/slides/slide2.xml'', sl_background = None,
                sl_elements = []\<rparr>]"
proof -
  have "decodeSlide (example_host example_parse) blank_archive (scaleFactor 9144000)
      ''ppt/slides/slide1.xml'' =
    Some \<lparr>sl_id = ''imported-slide-0-ppt/slides/slide1.xml'', sl_background = None,
           sl_elements = []\<rparr>"
    by (simp add: decodeSlide_eval [OF example_files(4)] example_shapes enumerate_eq_zip
        slideId_def show_nat_small)
  then have "handlePptxUpload (example_host example_parse) blank_archive =
     Imported [\<lparr>sl_id = ''imported-slide-0-ppt/slides/slide1.xml'', sl_background = None,
                sl_elements = []\<rparr>]"
    by (simp add: handlePptxUpload_def example_slideFiles newSlides_def
        no_presentation_width [OF example_files(9)])
  moreover have "handlePptxUpload (example_host example_parse) two_entry_archive =
     Imported [\<lparr>sl_id = ''imported-slide-0-ppt/slides/slide2.xml'', sl_background = None,
                sl_elements = []\<rparr>]"
    by (simp add: handlePptxUpload_def two_entry_slideFiles two_entry_import)
  ultimately show ?thesis
    using two_entry_slideFiles by simp
qed

section \<open>Export placement\<close>



end
